theory Spec2Isabelle
  imports Complex_Main
begin

section \<open>The pipeline executor of \<open>nlp_engine/command_pipeline.py\<close>\<close>

subsection \<open>Data\<close>

text \<open>
  \<open>class PipelineStage\<close>: the three attributes set by \<open>__init__\<close>;
  \<open>original_text\<close> defaults to \<open>None\<close>.
\<close>

record PipelineStage =
  action :: string
  args :: "string list"
  original_text :: "string option"

text \<open>
  The dictionary \<open>{'action': stage.action, 'args': stage.args}\<close> that
  \<open>execute_pipeline\<close> and \<open>_execute_multi_stage_pipeline\<close> hand to the executor.
\<close>

record command =
  cmd_action :: string
  cmd_args :: "string list"

text \<open>
  What the executor callable gives back, as \<open>_execute_single_command\<close> tells the cases
  apart: a dictionary (any of the keys \<open>returncode\<close>, \<open>stdout\<close>, \<open>stderr\<close> may be
  absent), \<open>None\<close>, a string, some other object (of which only \<open>str(result)\<close> and its
  truth value are read), or a raised exception (of which only \<open>str(e)\<close> is read).
\<close>

record executor_dict =
  d_returncode :: "int option"
  d_stdout :: "string option"
  d_stderr :: "string option"

datatype executor_return =
    RDict executor_dict
  | RNone
  | RStr string
  | ROther string bool
  | RRaise string

text \<open>
  A finished \<open>subprocess.run\<close>: \<open>process.returncode\<close>, \<open>process.stdout\<close>,
  \<open>process.stderr\<close>.
\<close>

record completed_process =
  proc_returncode :: int
  proc_stdout :: string
  proc_stderr :: string

text \<open>
  The result dictionaries built by the pipeline code. \<open>success\<close>, \<open>stdout\<close> and
  \<open>stderr\<close> are in every one of them; the other keys are present in some of them only,
  so they are options (\<open>None\<close>: the key is absent).
\<close>

record execution_result =
  success :: bool
  error :: "string option"
  stdout :: string
  stderr :: string
  returncode :: "int option"
  stages_executed :: "nat option"
  failed_stage :: "nat option"

subsection \<open>The outside world\<close>

text \<open>
  The executor callable, \<open>subprocess.run\<close> and the temporary files are outside the
  program. They are arbitrary functions on an arbitrary world state \<open>'w\<close>, and every
  call the program makes is written to a trace, in the order of the calls.
  \<open>subprocess.run\<close> either raises (\<open>Inl\<close> of \<open>str(e)\<close>) or returns a finished process.
  Creating, writing and closing a \<open>NamedTemporaryFile\<close> is one call that returns the
  file's name; it is taken not to raise.
\<close>

datatype event =
    MapNative PipelineStage
  | SubprocessRun "string list" "string option"
  | CallExecutor command
  | TempFile string string
  | Unlink string

record 'w env =
  executor :: "command \<Rightarrow> 'w \<Rightarrow> executor_return \<times> 'w"
  subprocess_run :: "string list \<Rightarrow> string option \<Rightarrow> 'w \<Rightarrow> (string + completed_process) \<times> 'w"
  named_temporary_file :: "string \<Rightarrow> 'w \<Rightarrow> string \<times> 'w"
  os_unlink :: "string \<Rightarrow> 'w \<Rightarrow> 'w"

record 'w sys =
  world :: 'w
  trace :: "event list"

subsection \<open>\<open>CommandPipeline._execute_single_command\<close>\<close>

definition startswith :: "string \<Rightarrow> string \<Rightarrow> bool" where
  "startswith s p = (take (length p) s = p)"

definition execute_single_command ::
  "'w env \<Rightarrow> command \<Rightarrow> 'w sys \<Rightarrow> execution_result \<times> 'w sys" where
  "execute_single_command env cmd st =
     (let (result, w') = executor env cmd (world st);
          st' = st\<lparr>world := w', trace := trace st @ [CallExecutor cmd]\<rparr>
      in case result of
           RRaise e \<Rightarrow>
             (\<lparr>success = False, error = Some e, stdout = '''',
               stderr = ''Error executing command: '' @ e,
               returncode = Some 1, stages_executed = Some 0, failed_stage = None\<rparr>, st')
         | RDict d \<Rightarrow>
             (\<lparr>success = (case d_returncode d of None \<Rightarrow> True | Some rc \<Rightarrow> rc = 0),
               error = None,
               stdout = (case d_stdout d of None \<Rightarrow> '''' | Some s \<Rightarrow> s),
               stderr = (case d_stderr d of None \<Rightarrow> '''' | Some s \<Rightarrow> s),
               returncode = Some (case d_returncode d of None \<Rightarrow> 0 | Some rc \<Rightarrow> rc),
               stages_executed = Some 1, failed_stage = None\<rparr>, st')
         | RNone \<Rightarrow>
             (\<lparr>success = True, error = None, stdout = ''Command executed successfully'',
               stderr = '''', returncode = Some 0, stages_executed = Some 1,
               failed_stage = None\<rparr>, st')
         | RStr s \<Rightarrow>
             (if startswith s ''PYTHON_HANDLED'' then
                (\<lparr>success = True, error = None, stdout = ''Command executed successfully'',
                  stderr = '''', returncode = Some 0, stages_executed = Some 1,
                  failed_stage = None\<rparr>, st')
              else
                (\<lparr>success = True, error = None, stdout = (if s \<noteq> [] then s else ''''),
                  stderr = '''', returncode = Some 0, stages_executed = Some 1,
                  failed_stage = None\<rparr>, st'))
         | ROther repr truthy \<Rightarrow>
             (\<lparr>success = True, error = None, stdout = (if truthy then repr else ''''),
               stderr = '''', returncode = Some 0, stages_executed = Some 1,
               failed_stage = None\<rparr>, st'))"

subsection \<open>\<open>CommandPipeline._map_to_native_command\<close>\<close>

text \<open>
  The parameters \<open>input_data\<close> and \<open>is_last_stage\<close> are not read by the body.
  In the \<open>grep\<close> branch an empty argument list falls through to the final
  \<open>return None\<close>.
\<close>

definition map_to_native_command ::
  "PipelineStage \<Rightarrow> string option \<Rightarrow> bool \<Rightarrow> string list option" where
  "map_to_native_command stage input_data is_last_stage =
     (if action stage = ''list_files'' then
        Some (if args stage \<noteq> [] then [''ls'', ''-la''] else [''ls''])
      else if action stage = ''display_file'' \<and> args stage \<noteq> [] then
        Some (''cat'' # args stage)
      else if action stage = ''grep'' \<or> action stage = ''find_text'' then
        (if args stage \<noteq> [] then Some (''grep'' # args stage) else None)
      else if action stage = ''count_lines'' then
        Some [''wc'', ''-l'']
      else if action stage = ''sort_lines'' then
        Some (''sort'' # args stage)
      else None)"

subsection \<open>\<open>CommandPipeline._execute_native_command\<close>\<close>

text \<open>
  \<open>input=input_data.encode('utf-8') if input_data else None\<close>: an empty string is
  falsy, so the process gets no input then.
\<close>

definition execute_native_command ::
  "'w env \<Rightarrow> string list \<Rightarrow> string option \<Rightarrow> 'w sys \<Rightarrow> execution_result \<times> 'w sys" where
  "execute_native_command env cmd input_data st =
     (let inp = (case input_data of None \<Rightarrow> None
                 | Some s \<Rightarrow> if s \<noteq> [] then Some s else None);
          (r, w') = subprocess_run env cmd inp (world st);
          st' = st\<lparr>world := w', trace := trace st @ [SubprocessRun cmd inp]\<rparr>
      in case r of
           Inr process \<Rightarrow>
             (\<lparr>success = (proc_returncode process = 0), error = None,
               stdout = proc_stdout process, stderr = proc_stderr process,
               returncode = Some (proc_returncode process),
               stages_executed = None, failed_stage = None\<rparr>, st')
         | Inl e \<Rightarrow>
             (\<lparr>success = False, error = Some e, stdout = '''',
               stderr = ''Error executing command: '' @ e,
               returncode = Some 1, stages_executed = None, failed_stage = None\<rparr>, st'))"

subsection \<open>\<open>CommandPipeline._execute_multi_stage_pipeline\<close>\<close>

text \<open>
  The state of the \<open>for\<close> loop besides the world: \<open>current_input\<close>,
  \<open>stages_executed\<close> and \<open>temp_files\<close>.
\<close>

record 'w loop_state =
  current_input :: "string option"
  executed :: nat
  temp_files :: "string list"
  sys :: "'w sys"

text \<open>
  One stage of the loop body, up to and including the two updates
  \<open>current_input = result.get('stdout', '')\<close> and \<open>stages_executed += 1\<close>. It
  returns the stage's result dictionary and the loop state after it.
\<close>

definition run_stage ::
  "'w env \<Rightarrow> bool \<Rightarrow> PipelineStage \<Rightarrow> 'w loop_state \<Rightarrow> execution_result \<times> 'w loop_state" where
  "run_stage env is_last_stage stage ls =
     (let st0 = (sys ls)\<lparr>trace := trace (sys ls) @ [MapNative stage]\<rparr>
      in case map_to_native_command stage (current_input ls) is_last_stage of
           Some native_cmd \<Rightarrow>
             (let (result, st1) = execute_native_command env native_cmd (current_input ls) st0
              in (result, ls\<lparr>current_input := Some (stdout result),
                              executed := executed ls + 1, sys := st1\<rparr>))
         | None \<Rightarrow>
             (case current_input ls of
                None \<Rightarrow>
                  (let cmd = \<lparr>cmd_action = action stage, cmd_args = args stage\<rparr>;
                       (result, st1) = execute_single_command env cmd st0
                   in (result, ls\<lparr>current_input := Some (stdout result),
                                   executed := executed ls + 1, sys := st1\<rparr>))
              | Some inp \<Rightarrow>
                  (let (name, w1) = named_temporary_file env inp (world st0);
                       st1 = st0\<lparr>world := w1, trace := trace st0 @ [TempFile name inp]\<rparr>;
                       stage_args = (if action stage \<in> set [''display_file'', ''cat'']
                                     then [name] else args stage);
                       cmd = \<lparr>cmd_action = action stage, cmd_args = stage_args\<rparr>;
                       (result, st2) = execute_single_command env cmd st1
                   in (result, ls\<lparr>current_input := Some (stdout result),
                                   executed := executed ls + 1,
                                   temp_files := temp_files ls @ [name], sys := st2\<rparr>))))"

text \<open>
  The \<open>for i, stage in enumerate(pipeline)\<close> loop: \<open>n\<close> is \<open>len(pipeline)\<close>,
  \<open>i\<close> the index of the head of the remaining stages.
\<close>

fun stages_loop ::
  "'w env \<Rightarrow> nat \<Rightarrow> nat \<Rightarrow> PipelineStage list \<Rightarrow> 'w loop_state
     \<Rightarrow> execution_result \<times> 'w loop_state" where
  "stages_loop env n i [] ls =
     (\<lparr>success = True, error = None,
       stdout = (case current_input ls of None \<Rightarrow> '''' | Some s \<Rightarrow> s),
       stderr = '''', returncode = Some 0,
       stages_executed = Some (executed ls), failed_stage = None\<rparr>, ls)"
| "stages_loop env n i (stage # rest) ls =
     (let (result, ls') = run_stage env (int i = int n - 1) stage ls
      in if \<not> success result then
           (\<lparr>success = False, error = None,
             stdout = (case current_input ls' of None \<Rightarrow> '''' | Some s \<Rightarrow> s),
             stderr = stderr result,
             returncode = Some (case returncode result of None \<Rightarrow> 1 | Some rc \<Rightarrow> rc),
             stages_executed = Some (executed ls'), failed_stage = Some i\<rparr>, ls')
         else stages_loop env n (Suc i) rest ls')"

text \<open>The \<open>finally\<close> block: every temporary file is unlinked, in order.\<close>

fun cleanup :: "'w env \<Rightarrow> string list \<Rightarrow> 'w sys \<Rightarrow> 'w sys" where
  "cleanup env [] st = st"
| "cleanup env (f # fs) st =
     cleanup env fs (st\<lparr>world := os_unlink env f (world st), trace := trace st @ [Unlink f]\<rparr>)"

definition execute_multi_stage_pipeline ::
  "'w env \<Rightarrow> PipelineStage list \<Rightarrow> 'w sys \<Rightarrow> execution_result \<times> 'w sys" where
  "execute_multi_stage_pipeline env pipeline st =
     (let (result, ls) = stages_loop env (length pipeline) 0 pipeline
                           \<lparr>current_input = None, executed = 0, temp_files = [], sys = st\<rparr>
      in (result, cleanup env (temp_files ls) (sys ls)))"

subsection \<open>\<open>CommandPipeline.execute_pipeline\<close>\<close>

definition execute_pipeline ::
  "'w env \<Rightarrow> PipelineStage list \<Rightarrow> 'w sys \<Rightarrow> execution_result \<times> 'w sys" where
  "execute_pipeline env pipeline st =
     (if pipeline = [] then
        (\<lparr>success = False, error = Some ''Empty pipeline'', stdout = '''',
          stderr = ''No commands to execute'', returncode = None,
          stages_executed = Some 0, failed_stage = None\<rparr>, st)
      else if length pipeline = 1 then
        execute_single_command env
          \<lparr>cmd_action = action (hd pipeline), cmd_args = args (hd pipeline)\<rparr> st
      else execute_multi_stage_pipeline env pipeline st)"

section \<open>Strings and regular expressions\<close>

subsection \<open>Characters\<close>

text \<open>
  A Python \<open>str\<close> is a sequence of code points; a \<^typ>\<open>string\<close> here is a sequence of
  code points below 256, which is the range the model covers. On that range
  \<open>str.isspace\<close> (used by \<open>str.strip\<close> and by \<open>\s\<close>), the word characters of \<open>\w\<close>
  and \<open>\b\<close>, and \<open>str.lower\<close> are the following.
\<close>

definition is_space :: "char \<Rightarrow> bool" where
  "is_space c =
     (let n = (of_char c :: nat)
      in (9 \<le> n \<and> n \<le> 13) \<or> (28 \<le> n \<and> n \<le> 32) \<or> n = 133 \<or> n = 160)"

definition is_word :: "char \<Rightarrow> bool" where
  "is_word c =
     (let n = (of_char c :: nat)
      in (48 \<le> n \<and> n \<le> 57) \<or> (65 \<le> n \<and> n \<le> 90) \<or> n = 95 \<or> (97 \<le> n \<and> n \<le> 122)
         \<or> n = 170 \<or> n = 178 \<or> n = 179 \<or> n = 181 \<or> n = 185 \<or> n = 186
         \<or> (188 \<le> n \<and> n \<le> 190) \<or> (192 \<le> n \<and> n \<le> 214)
         \<or> (216 \<le> n \<and> n \<le> 246) \<or> (248 \<le> n \<and> n \<le> 255))"

definition lower_char :: "char \<Rightarrow> char" where
  "lower_char c =
     (let n = (of_char c :: nat)
      in if (65 \<le> n \<and> n \<le> 90) \<or> (192 \<le> n \<and> n \<le> 214) \<or> (216 \<le> n \<and> n \<le> 222)
         then char_of (n + 32) else c)"

definition lower :: "string \<Rightarrow> string" where
  "lower s = map lower_char s"

text \<open>\<open>str.strip()\<close>: whitespace is dropped at both ends.\<close>

definition strip :: "string \<Rightarrow> string" where
  "strip s = rev (dropWhile is_space (rev (dropWhile is_space s)))"

text \<open>
  \<open>str.split(sep)\<close> for a non-empty separator: the occurrences of \<open>sep\<close> are found
  from the left and do not overlap; \<open>acc\<close> is the piece read so far.
  (Python raises \<open>ValueError\<close> on an empty separator; both separators of the source
  are non-empty constants.)
\<close>

function split_acc :: "string \<Rightarrow> string \<Rightarrow> string \<Rightarrow> string list" where
  "split_acc sep acc [] = [acc]"
| "split_acc sep acc (c # cs) =
     (if sep \<noteq> [] \<and> take (length sep) (c # cs) = sep
      then acc # split_acc sep [] (drop (length sep - 1) cs)
      else split_acc sep (acc @ [c]) cs)"
  by pat_completeness auto
termination
  by (relation "measure (\<lambda>(sep, acc, s). length s)") auto

definition split :: "string \<Rightarrow> string \<Rightarrow> string list" where
  "split s sep = split_acc sep [] s"

subsection \<open>The fragment of \<open>re\<close> that the source's patterns use\<close>

text \<open>
  Literal text, \<open>\b\<close>, \<open>\s*\<close>, \<open>\s+\<close>, \<open>(?:r)?\<close>, concatenation and alternation, all
  matched as under \<open>re.IGNORECASE\<close>. The literals of the source are lower-case ASCII
  letters and spaces; on code points below 256 such a letter matches itself and its
  upper-case form only.
\<close>

datatype regex =
    Lit string
  | WordB
  | Spaces0
  | Spaces1
  | Opt regex
  | Seq regex regex
  | Alt regex regex

text \<open>
  A cursor is a position in the text: the character before it (\<open>None\<close> at the start
  of the text) and the text from it on.
\<close>

type_synonym cursor = "char option \<times> string"

fun lit :: "string \<Rightarrow> cursor \<Rightarrow> cursor option" where
  "lit [] cur = Some cur"
| "lit (c # cs) (p, []) = None"
| "lit (c # cs) (p, x # xs) =
     (if lower_char x = lower_char c then lit cs (Some x, xs) else None)"

text \<open>
  \<open>\b\<close>: exactly one of the characters before and after the position is a word
  character; the two ends of the text count as non-word.
\<close>

fun word_before :: "cursor \<Rightarrow> bool" where
  "word_before (None, rest) = False"
| "word_before (Some c, rest) = is_word c"

fun word_after :: "cursor \<Rightarrow> bool" where
  "word_after (p, []) = False"
| "word_after (p, x # xs) = is_word x"

definition at_boundary :: "cursor \<Rightarrow> bool" where
  "at_boundary cur = (word_before cur \<noteq> word_after cur)"

text \<open>
  The cursors after zero or more whitespace characters, the longest run first (the
  quantifiers of the source are greedy).
\<close>

fun spaces :: "cursor \<Rightarrow> cursor list" where
  "spaces (p, []) = [(p, [])]"
| "spaces (p, x # xs) =
     (if is_space x then spaces (Some x, xs) @ [(p, x # xs)] else [(p, x # xs)])"

text \<open>
  The backtracking matcher: every cursor at which a match that starts at \<open>cur\<close> can
  end, in the order in which \<open>re\<close> tries them.
\<close>

fun rmatch :: "regex \<Rightarrow> cursor \<Rightarrow> cursor list" where
  "rmatch (Lit s) cur = (case lit s cur of None \<Rightarrow> [] | Some cur' \<Rightarrow> [cur'])"
| "rmatch WordB cur = (if at_boundary cur then [cur] else [])"
| "rmatch Spaces0 cur = spaces cur"
| "rmatch Spaces1 cur = butlast (spaces cur)"
| "rmatch (Opt r) cur = rmatch r cur @ [cur]"
| "rmatch (Seq r1 r2) cur = concat (map (rmatch r2) (rmatch r1 cur))"
| "rmatch (Alt r1 r2) cur = rmatch r1 cur @ rmatch r2 cur"

text \<open>\<open>pattern.search(text)\<close> as a truth value: a match starts somewhere.\<close>

fun search_from :: "regex \<Rightarrow> cursor \<Rightarrow> bool" where
  "search_from r (p, []) = (rmatch r (p, []) \<noteq> [])"
| "search_from r (p, x # xs) = (rmatch r (p, x # xs) \<noteq> [] \<or> search_from r (Some x, xs))"

definition re_search :: "regex \<Rightarrow> string \<Rightarrow> bool" where
  "re_search r text = search_from r (None, text)"

text \<open>
  \<open>pattern.sub(repl, text)\<close>: the leftmost match is replaced, and the scan goes on
  after it. Where nothing matches at a position, its character is copied. A match of
  length zero (no pattern of the source has one) is replaced and the next character
  copied.
\<close>

function sub_from :: "regex \<Rightarrow> string \<Rightarrow> cursor \<Rightarrow> string" where
  "sub_from r repl (p, rest) =
     (case rmatch r (p, rest) of
        [] \<Rightarrow> (case rest of [] \<Rightarrow> [] | x # xs \<Rightarrow> x # sub_from r repl (Some x, xs))
      | (p', rest') # others \<Rightarrow>
          (if length rest' < length rest then repl @ sub_from r repl (p', rest')
           else (case rest of [] \<Rightarrow> repl
                 | x # xs \<Rightarrow> repl @ x # sub_from r repl (Some x, xs))))"
  by pat_completeness auto
termination
  by (relation "measure (\<lambda>(r, repl, cur). length (snd cur))") auto

declare sub_from.simps [simp del]

definition re_sub :: "regex \<Rightarrow> string \<Rightarrow> string \<Rightarrow> string" where
  "re_sub r repl text = sub_from r repl (None, text)"

text \<open>Helpers to write a pattern down as the source does.\<close>

fun seqs :: "regex list \<Rightarrow> regex" where
  "seqs [] = Lit []"
| "seqs [r] = r"
| "seqs (r # rs) = Seq r (seqs rs)"

fun alts :: "regex list \<Rightarrow> regex" where
  "alts [] = Lit []"
| "alts [r] = r"
| "alts (r # rs) = Alt r (alts rs)"

text \<open>\<open>r'\b' + word + r'\b'\<close>\<close>

definition whole_word :: "string \<Rightarrow> regex" where
  "whole_word w = Seq WordB (Seq (Lit w) WordB)"

section \<open>Splitting and parsing a pipeline (\<open>CommandPipeline\<close>)\<close>

text \<open>
  \<open>self.pipeline_indicators\<close>, in the order of the source:
  \<open>\band\b\<close>, \<open>\bthen\b\<close>, \<open>\bafter that\b\<close>, \<open>\bnext\b\<close>, \<open>\bpipe to\b\<close>,
  \<open>\bpipe into\b\<close>, \<open>\bsend to\b\<close>, \<open>\bpass to\b\<close>, \<open>\bfollow(?:ed)? by\b\<close>,
  \<open>\bwith the result\b\<close>.
\<close>

definition pipeline_indicators :: "regex list" where
  "pipeline_indicators =
     [whole_word ''and'', whole_word ''then'', whole_word ''after that'', whole_word ''next'',
      whole_word ''pipe to'', whole_word ''pipe into'', whole_word ''send to'',
      whole_word ''pass to'',
      seqs [WordB, Lit ''follow'', Opt (Lit ''ed''), Lit '' by'', WordB],
      whole_word ''with the result'']"

text \<open>\<open>self.pipeline_pattern = re.compile('|'.join(self.pipeline_indicators), re.IGNORECASE)\<close>\<close>

definition pipeline_pattern :: regex where
  "pipeline_pattern = alts pipeline_indicators"

definition detect_pipeline :: "string \<Rightarrow> bool" where
  "detect_pipeline text = re_search pipeline_pattern text"

definition special_token :: string where
  "special_token = ''###PIPELINE_SPLIT###''"

text \<open>
  \<open>split_pipeline_stages\<close>: the \<open>for\<close> loop substitutes one indicator after the other
  into \<open>text\<close>; then the text is split at the token, the pieces are stripped and the
  empty ones dropped.
\<close>

definition split_pipeline_stages :: "string \<Rightarrow> string list" where
  "split_pipeline_stages text =
     (let text' = foldl (\<lambda>t indicator. re_sub indicator special_token t) text pipeline_indicators;
          stages = map strip (split text' special_token)
      in filter (\<lambda>stage. stage \<noteq> []) stages)"

text \<open>
  The parser is a parameter of \<open>CommandPipeline\<close>: any object with a \<open>parse_input\<close>
  method, here a function on a parser state \<open>'p\<close>. Of the dictionary it returns the
  pipeline reads the keys \<open>action\<close> and \<open>args\<close> only, either of which may be absent;
  \<open>None\<close> is the \<open>None\<close> (or empty dictionary) the parser may return instead.
\<close>

record parsed =
  key_action :: "string option"
  key_args :: "string list option"

type_synonym 'p parser = "string \<Rightarrow> 'p \<Rightarrow> parsed option \<times> 'p"

text \<open>The loop \<open>for stage_text in stage_texts\<close> of \<open>parse_pipeline\<close>.\<close>

fun parse_stages :: "'p parser \<Rightarrow> string list \<Rightarrow> 'p \<Rightarrow> PipelineStage list \<times> 'p" where
  "parse_stages parser [] p = ([], p)"
| "parse_stages parser (stage_text # rest) p =
     (let (cmd, p') = parser stage_text p;
          (pipeline, p'') = parse_stages parser rest p'
      in (case cmd of
            None \<Rightarrow> pipeline
          | Some d \<Rightarrow>
              (case key_action d of
                 None \<Rightarrow> pipeline
               | Some a \<Rightarrow>
                   if a \<notin> set [''unrecognized'', ''suggest'', ''error''] then
                     \<lparr>action = a,
                      args = (case key_args d of None \<Rightarrow> [] | Some xs \<Rightarrow> xs),
                      original_text = Some stage_text\<rparr> # pipeline
                   else pipeline), p''))"

definition parse_pipeline :: "'p parser \<Rightarrow> string \<Rightarrow> 'p \<Rightarrow> PipelineStage list \<times> 'p" where
  "parse_pipeline parser text p =
     (if \<not> detect_pipeline text then
        (let (cmd, p') = parser text p
         in (case cmd of
               None \<Rightarrow> []
             | Some d \<Rightarrow>
                 (case key_action d of
                    None \<Rightarrow> []
                  | Some a \<Rightarrow>
                      [\<lparr>action = a,
                        args = (case key_args d of None \<Rightarrow> [] | Some xs \<Rightarrow> xs),
                        original_text = Some text\<rparr>]), p'))
      else parse_stages parser (split_pipeline_stages text) p)"

section \<open>\<open>PipelineDetector\<close>\<close>

text \<open>
  \<open>self.pipeline_patterns\<close>:
  \<open>\band\s+(?:then)?\s*(?:(?:show|display|list|find|count|sort))\<close>,
  \<open>(?:after|then|next)\s+(?:(?:show|display|list|find|count|sort))\<close>,
  \<open>(?:pipe|send|pass)\s+(?:to|into)\<close>, \<open>followed\s+by\<close>, \<open>with\s+the\s+result\<close>.
\<close>

definition command_verbs :: regex where
  "command_verbs =
     alts [Lit ''show'', Lit ''display'', Lit ''list'', Lit ''find'', Lit ''count'', Lit ''sort'']"

definition pipeline_patterns :: "regex list" where
  "pipeline_patterns =
     [seqs [WordB, Lit ''and'', Spaces1, Opt (Lit ''then''), Spaces0, command_verbs],
      seqs [alts [Lit ''after'', Lit ''then'', Lit ''next''], Spaces1, command_verbs],
      seqs [alts [Lit ''pipe'', Lit ''send'', Lit ''pass''], Spaces1, alts [Lit ''to'', Lit ''into'']],
      seqs [Lit ''followed'', Spaces1, Lit ''by''],
      seqs [Lit ''with'', Spaces1, Lit ''the'', Spaces1, Lit ''result'']]"

definition complex_action_words :: "string list" where
  "complex_action_words =
     [''find'', ''search'', ''filter'', ''count'', ''sort'', ''analyze'',
      ''organize'', ''categorize'', ''group'', ''aggregate'']"

text \<open>
  \<open>action_patterns\<close> of \<open>is_pipeline\<close>:
  \<open>\b(?:list|show|find|get|display|count|sort)\b\<close>, \<open>\bfiles\b\<close>, \<open>\btext\b\<close>.
\<close>

definition action_patterns :: "regex list" where
  "action_patterns =
     [seqs [WordB,
            alts [Lit ''list'', Lit ''show'', Lit ''find'', Lit ''get'', Lit ''display'',
                  Lit ''count'', Lit ''sort''],
            WordB],
      whole_word ''files'', whole_word ''text'']"

text \<open>
  The three parts of \<open>is_pipeline\<close>, in the order of the source: the explicit
  patterns, the count of complex action words, and the comma-separated parts.
\<close>

definition action_count :: "string \<Rightarrow> nat" where
  "action_count text =
     length (filter (\<lambda>word. re_search (whole_word word) text) complex_action_words)"

definition comma_parts :: "string \<Rightarrow> string list" where
  "comma_parts text = map strip (split text '','')"

definition action_parts :: "string list \<Rightarrow> nat" where
  "action_parts parts =
     length (filter (\<lambda>part. \<exists>pattern \<in> set action_patterns. re_search pattern part) parts)"

definition is_pipeline :: "string \<Rightarrow> bool" where
  "is_pipeline text =
     (if \<exists>pattern \<in> set pipeline_patterns. re_search pattern text then True
      else if action_count text \<ge> 2 then True
      else if length (comma_parts text) \<ge> 3 then action_parts (comma_parts text) \<ge> 2
      else False)"

section \<open>The intent resolver of \<open>nlp_engine/enhanced_parser.py\<close>\<close>

subsection \<open>Dictionaries\<close>

text \<open>
  A Python \<open>dict\<close> keeps its keys in insertion order, and \<open>_check_learning_data\<close>
  iterates over one, so a dictionary is an association list with distinct keys.
  Storing under a key that is present keeps its place; a new key goes to the end.
\<close>

type_synonym ('k, 'v) dict = "('k \<times> 'v) list"

definition dict_get :: "('k, 'v) dict \<Rightarrow> 'k \<Rightarrow> 'v option" where
  "dict_get d k = map_of d k"

fun dict_set :: "('k, 'v) dict \<Rightarrow> 'k \<Rightarrow> 'v \<Rightarrow> ('k, 'v) dict" where
  "dict_set [] k v = [(k, v)]"
| "dict_set ((k', v') # d) k v = (if k' = k then (k, v) # d else (k', v') # dict_set d k v)"

text \<open>\<open>{**a, **b}\<close>\<close>

definition dict_merge :: "('k, 'v) dict \<Rightarrow> ('k, 'v) dict \<Rightarrow> ('k, 'v) dict" where
  "dict_merge a b = foldl (\<lambda>d (k, v). dict_set d k v) a b"

text \<open>The truth value of an optional string: \<open>None\<close> and \<open>''\<close> are falsy.\<close>

fun truthy :: "string option \<Rightarrow> bool" where
  "truthy None = False"
| "truthy (Some s) = (s \<noteq> [])"

subsection \<open>Data\<close>

text \<open>
  The command structure built at the end of \<open>parse_input\<close>; \<open>entities\<close> maps an
  entity category to its values.
\<close>

record command_structure =
  cs_action :: string
  cs_args :: "string list"
  cs_entities :: "(string, string list) dict"
  cs_original_text :: string

text \<open>\<open>class CommandHistory\<close>\<close>

record CommandHistory =
  commands :: "command_structure list"
  history_size :: nat
  last_entities :: "(string, string list) dict"

text \<open>
  \<open>self.learning_data\<close>, with the four keys of the empty structure of
  \<open>_load_learning_data\<close>.
\<close>

record learning_data =
  successful_parses :: "(string, bool) dict"
  misinterpreted_commands :: "string list"
  user_corrections :: "(string, string) dict"
  command_frequencies :: "(string, int) dict"

text \<open>
  A spaCy token, as far as the parser reads it: \<open>text\<close>, the whitespace after it,
  \<open>pos_\<close> and \<open>is_stop\<close>. A \<open>Doc\<close> is the list of its tokens.
\<close>

record token =
  tok_text :: string
  tok_ws :: string
  pos :: string
  is_stop :: bool

type_synonym doc = "token list"

text \<open>
  The calls to the similarity scorer that a resolution makes:
  \<open>process.extractOne(query, choices, scorer=fuzz.WRatio, score_cutoff=...)\<close> and
  \<open>fuzz.ratio(a, b)\<close>.
\<close>

datatype scorer_call =
    ExtractOne string "string list" real
  | Ratio string string

text \<open>
  The libraries and the disk are outside the program: the spaCy pipeline \<open>self.nlp\<close>,
  the \<open>PhraseMatcher\<close> (a function of the phrases added to it by \<open>_setup_matchers\<close>),
  the entity \<open>Matcher\<close>, the two rapidfuzz scorers, and the rewriting of the
  learning-data file (whatever it does to the disk \<open>'d\<close>, failure included). A match
  is \<open>(match_id, start, end)\<close>, the identifier being the rule's name.
\<close>

record 'd parser_env =
  nlp :: "string \<Rightarrow> doc"
  phrase_matcher :: "string list \<Rightarrow> doc \<Rightarrow> (string \<times> nat \<times> nat) list"
  entity_matcher :: "doc \<Rightarrow> (string \<times> nat \<times> nat) list"
  extract_one :: "string \<Rightarrow> string list \<Rightarrow> real \<Rightarrow> (string \<times> real \<times> nat) option"
  fuzz_ratio :: "string \<Rightarrow> string \<Rightarrow> real"
  write_learning_data :: "learning_data \<Rightarrow> 'd \<Rightarrow> 'd"

text \<open>
  The parser object: the attributes set by \<open>__init__\<close>, the disk, and the scorer calls
  made so far.
\<close>

record 'd EnhancedParser =
  history :: CommandHistory
  action_keywords :: "(string, string) dict"
  fuzzy_match_threshold_execute :: real
  fuzzy_match_threshold_suggest :: real
  learning :: learning_data
  disk :: 'd
  scorer_calls :: "scorer_call list"

text \<open>What \<open>parse_input\<close> returns, or the \<open>KeyError\<close> of a failed dictionary lookup.\<close>

datatype parse_result =
    PNone
  | PUnrecognized
  | PSuggest string string
  | PCommand command_structure
  | PKeyError string

subsection \<open>\<open>__init__\<close>\<close>

definition base_action_keywords :: "(string, string) dict" where
  "base_action_keywords =
     [(''list files'', ''list_files''),
      (''show files'', ''list_files''),
      (''ls'', ''list_files''),
      (''show current directory'', ''show_path''),
      (''pwd'', ''show_path''),
      (''change directory'', ''change_directory''),
      (''cd'', ''change_directory'')]"

definition empty_learning_data :: learning_data where
  "empty_learning_data =
     \<lparr>successful_parses = [], misinterpreted_commands = [],
      user_corrections = [], command_frequencies = []\<rparr>"

text \<open>
  \<open>user\<close> is the \<open>command_mappings\<close> of the user's configuration (empty without one),
  \<open>loaded\<close> the learning data found on the disk \<open>d\<close>.
\<close>

definition init_parser :: "(string, string) dict \<Rightarrow> learning_data \<Rightarrow> 'd \<Rightarrow> 'd EnhancedParser" where
  "init_parser user loaded d =
     \<lparr>history = \<lparr>commands = [], history_size = 10, last_entities = []\<rparr>,
      action_keywords = dict_merge base_action_keywords user,
      fuzzy_match_threshold_execute = 90,
      fuzzy_match_threshold_suggest = 65,
      learning = loaded,
      disk = d,
      scorer_calls = []\<rparr>"

text \<open>\<open>_setup_matchers\<close>: only the phrases with a space in them go to the matcher.\<close>

definition matcher_phrases :: "(string, string) dict \<Rightarrow> string list" where
  "matcher_phrases keywords = filter (\<lambda>phrase. CHR '' '' \<in> set phrase) (map fst keywords)"

subsection \<open>\<open>CommandHistory.add_command\<close>\<close>

definition add_command :: "command_structure \<Rightarrow> CommandHistory \<Rightarrow> CommandHistory" where
  "add_command command_dict h =
     (let cmds = commands h @ [command_dict];
          ents = foldl (\<lambda>le (entity_type, values).
                          if values \<noteq> [] then dict_set le entity_type values else le)
                   (last_entities h) (cs_entities command_dict)
      in h\<lparr>commands := (if length cmds > history_size h then tl cmds else cmds),
            last_entities := ents\<rparr>)"

subsection \<open>Entities and arguments\<close>

text \<open>\<open>doc[start:end].text\<close>: the tokens with their whitespace, without the last one's.\<close>

fun tokens_text :: "token list \<Rightarrow> string" where
  "tokens_text [] = []"
| "tokens_text [t] = tok_text t"
| "tokens_text (t # ts) = tok_text t @ tok_ws t @ tokens_text ts"

definition span_text :: "doc \<Rightarrow> nat \<Rightarrow> nat \<Rightarrow> string" where
  "span_text d start end' = tokens_text (drop start (take end' d))"

definition extract_basic_entities :: "doc \<Rightarrow> (string, string list) dict" where
  "extract_basic_entities d =
     [(''nouns'', map tok_text (filter (\<lambda>t. pos t = ''NOUN'' \<and> \<not> is_stop t) d)),
      (''proper_nouns'',
         map tok_text (filter (\<lambda>t. \<not> (pos t = ''NOUN'' \<and> \<not> is_stop t) \<and> pos t = ''PROPN'') d))]"

definition extract_specialized_entities :: "'d parser_env \<Rightarrow> doc \<Rightarrow> (string, string list) dict" where
  "extract_specialized_entities penv d =
     [(''file_paths'',
         map (\<lambda>(rule_id, start, end'). span_text d start end')
           (filter (\<lambda>(rule_id, start, end'). rule_id = ''FILE_PATH'') (entity_matcher penv d))),
      (''git_branches'', []),
      (''options'', map tok_text (filter (\<lambda>t. startswith (tok_text t) ''-'') d))]"

text \<open>
  \<open>_resolve_references\<close>. \<open>resolved = entities.copy()\<close> is a shallow copy: a list that
  is in \<open>entities\<close> is the same object in \<open>resolved\<close>, so an \<open>append\<close> to it shows in
  both; a list created for a key that \<open>entities\<close> lacks is in \<open>resolved\<close> only. The
  function returns both dictionaries, \<open>entities\<close> first.
\<close>

definition dict_append ::
  "(string, string list) dict \<Rightarrow> string \<Rightarrow> string \<Rightarrow> (string, string list) dict" where
  "dict_append d k v =
     dict_set d k ((case dict_get d k of None \<Rightarrow> [] | Some vs \<Rightarrow> vs) @ [v])"

fun resolve_tokens ::
  "(string, string list) dict \<Rightarrow> token list
     \<Rightarrow> (string, string list) dict \<times> (string, string list) dict
     \<Rightarrow> (string, string list) dict \<times> (string, string list) dict" where
  "resolve_tokens context [] er = er"
| "resolve_tokens context [t] er = er"
| "resolve_tokens context (t # next_token # ts) (entities, resolved) =
     resolve_tokens context (next_token # ts)
       (if lower (tok_text t) \<in> set [''that'', ''this'']
           \<and> lower (tok_text next_token) \<in> set [''file'', ''directory'', ''folder''] then
          (let entity_type = (if lower (tok_text next_token) = ''file''
                              then ''file_paths'' else ''directory_paths'')
           in case dict_get context entity_type of
                None \<Rightarrow> (entities, resolved)
              | Some [] \<Rightarrow> (entities, resolved)
              | Some (v # vs) \<Rightarrow>
                  ((if dict_get entities entity_type = None then entities
                    else dict_append entities entity_type v),
                   dict_append resolved entity_type v))
        else (entities, resolved))"

definition resolve_references ::
  "doc \<Rightarrow> (string, string list) dict \<Rightarrow> (string, string list) dict
     \<Rightarrow> (string, string list) dict \<times> (string, string list) dict" where
  "resolve_references d entities context =
     (let has_reference =
            (\<exists>t \<in> set d. lower (tok_text t) \<in> set [''that'', ''this'', ''it'', ''those''])
      in if has_reference \<and> context \<noteq> [] then resolve_tokens context d (entities, entities)
         else (entities, entities))"

definition format_args_for_action :: "string \<Rightarrow> (string, string list) dict \<Rightarrow> string list" where
  "format_args_for_action action_id entities =
     (let paths = (\<lambda>k. case dict_get entities k of None \<Rightarrow> [] | Some vs \<Rightarrow> vs);
          args1 =
            (if action_id \<in> set [''change_directory'', ''make_directory'', ''delete_directory''] then
               (if paths ''directory_paths'' \<noteq> [] then [hd (paths ''directory_paths'')]
                else if paths ''file_paths'' \<noteq> [] then [hd (paths ''file_paths'')]
                else [])
             else if action_id \<in> set [''create_file'', ''delete_file'', ''display_file''] then
               (if paths ''file_paths'' \<noteq> [] then [hd (paths ''file_paths'')] else [])
             else if action_id \<in> set [''move_rename'', ''copy_file''] then
               (if length (paths ''file_paths'') \<ge> 2 then take 2 (paths ''file_paths'') else [])
             else [])
      in args1 @ paths ''options'')"

text \<open>
  \<open>_extract_arguments\<close>: the three keys \<open>raw_entities\<close>, \<open>resolved_entities\<close> and
  \<open>formatted_args\<close> of the dictionary it returns.
\<close>

definition extract_arguments ::
  "'d parser_env \<Rightarrow> doc \<Rightarrow> string \<Rightarrow> (string, string list) dict
     \<Rightarrow> (string, string list) dict \<times> (string, string list) dict \<times> string list" where
  "extract_arguments penv d action_id context =
     (let basic_entities = extract_basic_entities d;
          specialized_entities = extract_specialized_entities penv d;
          all_entities = dict_merge basic_entities specialized_entities;
          (raw_entities, resolved_entities) = resolve_references d all_entities context;
          formatted_args = format_args_for_action action_id resolved_entities
      in (raw_entities, resolved_entities, formatted_args))"

subsection \<open>Learning\<close>

text \<open>
  The loop of \<open>_check_learning_data\<close> over \<open>user_corrections.items()\<close>: the first
  correction whose similarity to the text is above 90 is returned, with the calls to
  \<open>fuzz.ratio\<close> made until then.
\<close>

fun check_corrections ::
  "'d parser_env \<Rightarrow> string \<Rightarrow> (string, string) dict \<Rightarrow> string option \<times> scorer_call list" where
  "check_corrections penv text [] = (None, [])"
| "check_corrections penv text ((original_input, correct_action) # rest) =
     (let similarity = fuzz_ratio penv (lower text) (lower original_input);
          call = Ratio (lower text) (lower original_input)
      in if similarity > 90 then (Some correct_action, [call])
         else (let (r, calls) = check_corrections penv text rest in (r, call # calls)))"

definition check_learning_data ::
  "'d parser_env \<Rightarrow> string \<Rightarrow> 'd EnhancedParser \<Rightarrow> string option \<times> scorer_call list" where
  "check_learning_data penv text self =
     (if user_corrections (learning self) = [] then (None, [])
      else check_corrections penv text (user_corrections (learning self)))"

definition update_command_frequency :: "string \<Rightarrow> learning_data \<Rightarrow> learning_data" where
  "update_command_frequency action_id ld =
     ld\<lparr>command_frequencies :=
          dict_set (command_frequencies ld) action_id
            ((case dict_get (command_frequencies ld) action_id of None \<Rightarrow> 0 | Some n \<Rightarrow> n) + 1)\<rparr>"

definition save_learning_data :: "'d parser_env \<Rightarrow> 'd EnhancedParser \<Rightarrow> 'd EnhancedParser" where
  "save_learning_data penv self =
     self\<lparr>disk := write_learning_data penv (learning self) (disk self)\<rparr>"

definition record_feedback ::
  "'d parser_env \<Rightarrow> string \<Rightarrow> bool \<Rightarrow> string option \<Rightarrow> 'd EnhancedParser \<Rightarrow> 'd EnhancedParser" where
  "record_feedback penv command_text was_correct correct_action self =
     (let ld = learning self;
          ld' = (if was_correct then
                   ld\<lparr>successful_parses := dict_set (successful_parses ld) command_text True\<rparr>
                 else
                   (let ld1 = ld\<lparr>misinterpreted_commands :=
                                    misinterpreted_commands ld @ [command_text]\<rparr>
                    in if truthy correct_action then
                         ld1\<lparr>user_corrections :=
                               dict_set (user_corrections ld1) command_text (the correct_action)\<rparr>
                       else ld1))
      in save_learning_data penv (self\<lparr>learning := ld'\<rparr>))"

subsection \<open>\<open>EnhancedParser.parse_input\<close>\<close>

text \<open>
  Step 1 of \<open>parse_input\<close>, the exact and the fuzzy match: the values of \<open>action_id\<close>,
  \<open>suggestion_action_id\<close> and \<open>suggestion_phrase\<close> before the learning data are
  looked at, and the scorer calls made. \<open>Inl\<close> is the \<open>KeyError\<close> of
  \<open>self.action_keywords[matched_phrase]\<close>. In the exact branch the two suggestion
  variables are unbound in the source; they are never read there, since \<open>action_id\<close>
  is truthy.
\<close>

definition exact_match_of :: "'d parser_env \<Rightarrow> doc \<Rightarrow> 'd EnhancedParser \<Rightarrow> string option" where
  "exact_match_of penv d self =
     (case phrase_matcher penv (matcher_phrases (action_keywords self)) d of
        [] \<Rightarrow> None
      | (match_id, start, end') # others \<Rightarrow>
          dict_get (action_keywords self) (lower (span_text d start end')))"

definition recognize_intent ::
  "'d parser_env \<Rightarrow> string \<Rightarrow> doc \<Rightarrow> 'd EnhancedParser
     \<Rightarrow> (string + string option \<times> string option \<times> string option) \<times> scorer_call list" where
  "recognize_intent penv text d self =
     (let exact_match = exact_match_of penv d self
      in if \<not> truthy exact_match then
           (let choices = map fst (action_keywords self);
                cutoff = fuzzy_match_threshold_suggest self;
                call = ExtractOne (lower text) choices cutoff
            in case extract_one penv (lower text) choices cutoff of
                 None \<Rightarrow> (Inr (None, None, None), [call])
               | Some (matched_phrase, score, index) \<Rightarrow>
                   if score \<ge> fuzzy_match_threshold_execute self then
                     (case dict_get (action_keywords self) matched_phrase of
                        None \<Rightarrow> (Inl matched_phrase, [call])
                      | Some a \<Rightarrow> (Inr (Some a, None, None), [call]))
                   else if score \<ge> fuzzy_match_threshold_suggest self then
                     (case dict_get (action_keywords self) matched_phrase of
                        None \<Rightarrow> (Inl matched_phrase, [call])
                      | Some a \<Rightarrow> (Inr (None, Some a, Some matched_phrase), [call]))
                   else (Inr (None, None, None), [call]))
         else (Inr (exact_match, None, None), []))"

definition parse_input ::
  "'d parser_env \<Rightarrow> string \<Rightarrow> 'd EnhancedParser \<Rightarrow> parse_result \<times> 'd EnhancedParser" where
  "parse_input penv text self =
     (if strip text = [] then (PNone, self)
      else
        (let d = nlp penv text;
             context = last_entities (history self);
             (intent, calls1) = recognize_intent penv text d self
         in case intent of
              Inl k \<Rightarrow> (PKeyError k, self\<lparr>scorer_calls := scorer_calls self @ calls1\<rparr>)
            | Inr (action_id0, suggestion_action_id, suggestion_phrase) \<Rightarrow>
                (let (learned_action, calls2) = check_learning_data penv text self;
                     action_id = (if truthy learned_action then learned_action else action_id0);
                     self1 = self\<lparr>scorer_calls := scorer_calls self @ calls1 @ calls2\<rparr>
                 in if \<not> truthy action_id \<and> \<not> truthy suggestion_action_id then
                      (PUnrecognized, self1)
                    else if \<not> truthy action_id \<and> truthy suggestion_action_id then
                      (PSuggest (the suggestion_action_id) (the suggestion_phrase), self1)
                    else
                      (let (raw_entities, resolved_entities, formatted_args) =
                             extract_arguments penv d (the action_id) context;
                           command_structure =
                             \<lparr>cs_action = the action_id, cs_args = formatted_args,
                              cs_entities = raw_entities, cs_original_text = text\<rparr>;
                           self2 = self1\<lparr>history := add_command command_structure (history self1)\<rparr>;
                           self3 = self2\<lparr>learning := update_command_frequency (the action_id)
                                                        (learning self2)\<rparr>
                       in (PCommand command_structure, save_learning_data penv self3)))))"

section \<open>Notions used in the statements\<close>

text \<open>
  The condition of the second branch of \<open>_execute_single_command\<close>:
  \<open>result is None or isinstance(result, str) and result.startswith('PYTHON_HANDLED')\<close>.
\<close>

fun python_handled :: "executor_return \<Rightarrow> bool" where
  "python_handled RNone = True"
| "python_handled (RStr s) = startswith s ''PYTHON_HANDLED''"
| "python_handled r = False"

text \<open>
  The loop state at the entry of \<open>_execute_multi_stage_pipeline\<close>.
\<close>

definition initial_loop_state :: "'w sys \<Rightarrow> 'w loop_state" where
  "initial_loop_state st = \<lparr>current_input = None, executed = 0, temp_files = [], sys = st\<rparr>"

text \<open>
  \<open>stages_ok env n i stages ls\<close> runs \<open>stages\<close> (the first of them at index \<open>i\<close>) from the
  loop state \<open>ls\<close> as the loop does, and gives the loop state after them when every
  one of them succeeds, and \<open>None\<close> as soon as one fails.
\<close>

fun stages_ok ::
  "'w env \<Rightarrow> nat \<Rightarrow> nat \<Rightarrow> PipelineStage list \<Rightarrow> 'w loop_state \<Rightarrow> 'w loop_state option" where
  "stages_ok env n i [] ls = Some ls"
| "stages_ok env n i (stage # rest) ls =
     (let (result, ls') = run_stage env (int i = int n - 1) stage ls
      in if success result then stages_ok env n (Suc i) rest ls' else None)"

text \<open>
  The three action values that stand for no command.
\<close>

definition terminal_actions :: "string list" where
  "terminal_actions = [''unrecognized'', ''suggest'', ''error'']"

text \<open>
  A text contains the word \<open>w\<close> as a whole word, in any case: \<open>w\<close> stands in it with
  no word character before it and none after it.
\<close>

definition contains_word :: "string \<Rightarrow> string \<Rightarrow> bool" where
  "contains_word text w =
     (\<exists>pre mid post. text = pre @ mid @ post \<and> lower mid = lower w
        \<and> (pre = [] \<or> \<not> is_word (last pre)) \<and> (post = [] \<or> \<not> is_word (hd post)))"

text \<open>
  \<open>sub\<close> occurs in \<open>s\<close> as a substring.
\<close>

definition occurs_in :: "string \<Rightarrow> string \<Rightarrow> bool" where
  "occurs_in sub s = (\<exists>pre post. s = pre @ sub @ post)"

text \<open>
  The character before the position after \<open>xs\<close>, when \<open>p\<close> is the one before \<open>xs\<close>.
\<close>

fun cursor_after :: "char option \<Rightarrow> string \<Rightarrow> char option" where
  "cursor_after p [] = p"
| "cursor_after p (x # xs) = cursor_after (Some x) xs"

subsection \<open>Concrete instances\<close>

text \<open>
  A world without state: the executor fails on the action \<open>boom\<close> with exit code 2,
  handles \<open>internal\<close> itself and returns \<open>None\<close> otherwise; every process exits with
  code 0 and prints \<open>a.txt\<close>.
\<close>

definition demo_env :: "unit env" where
  "demo_env =
     \<lparr>executor = (\<lambda>cmd w.
         (if cmd_action cmd = ''boom'' then
            RDict \<lparr>d_returncode = Some 2, d_stdout = None, d_stderr = Some ''bad''\<rparr>
          else if cmd_action cmd = ''internal'' then RStr ''PYTHON_HANDLED: done''
          else RNone, w)),
      subprocess_run = (\<lambda>argv inp w.
         (Inr \<lparr>proc_returncode = 0, proc_stdout = ''a.txt'', proc_stderr = ''''\<rparr>, w)),
      named_temporary_file = (\<lambda>content w. (''/tmp/tmp0'', w)),
      os_unlink = (\<lambda>name w. w)\<rparr>"

definition demo_stage :: "string \<Rightarrow> PipelineStage" where
  "demo_stage a = \<lparr>action = a, args = [], original_text = None\<rparr>"

definition demo_sys :: "unit sys" where
  "demo_sys = \<lparr>world = (), trace = []\<rparr>"

definition demo_pipeline :: "PipelineStage list" where
  "demo_pipeline = [demo_stage ''list_files'', demo_stage ''boom'', demo_stage ''count_lines'']"

text \<open>
  A stage parser that knows \<open>ls\<close> and \<open>wc\<close> and answers \<open>unrecognized\<close> to all else.
\<close>

definition demo_stage_parser :: "unit parser" where
  "demo_stage_parser stage_text p =
     (if stage_text = ''ls'' then Some \<lparr>key_action = Some ''list_files'', key_args = Some []\<rparr>
      else if stage_text = ''wc'' then Some \<lparr>key_action = Some ''count_lines'', key_args = None\<rparr>
      else Some \<lparr>key_action = Some ''unrecognized'', key_args = None\<rparr>, p)"

text \<open>
  What \<open>fuzz.ratio\<close> of rapidfuzz computes: the normalised indel similarity,
  \<open>100 * 2 * lcs / (len(a) + len(b))\<close>, and 100 for two empty strings.
\<close>

fun lcs_length :: "string \<Rightarrow> string \<Rightarrow> nat" where
  "lcs_length [] ys = 0"
| "lcs_length (x # xs) [] = 0"
| "lcs_length (x # xs) (y # ys) =
     (if x = y then Suc (lcs_length xs ys)
      else max (lcs_length xs (y # ys)) (lcs_length (x # xs) ys))"

definition indel_ratio :: "string \<Rightarrow> string \<Rightarrow> real" where
  "indel_ratio a b =
     (if a = [] \<and> b = [] then 100
      else 100 * real (2 * lcs_length a b) / real (length a + length b))"

text \<open>
  Libraries that know the one utterance \<open>show files\<close>: its two tokens, and the match
  of the phrase \<open>show files\<close> on them. The entity matcher finds nothing, and
  \<open>extractOne\<close> nothing above the cut-off; the file on the disk is the learning data
  last written. The parser is the one \<open>__init__\<close> builds without a user
  configuration, from learning data that hold the given corrections only.
\<close>

definition demo_doc :: "string \<Rightarrow> doc" where
  "demo_doc text =
     (if text = ''show files'' then
        [\<lparr>tok_text = ''show'', tok_ws = '' '', pos = ''VERB'', is_stop = True\<rparr>,
         \<lparr>tok_text = ''files'', tok_ws = '''', pos = ''NOUN'', is_stop = False\<rparr>]
      else [])"

definition demo_penv :: "learning_data parser_env" where
  "demo_penv =
     \<lparr>nlp = demo_doc,
      phrase_matcher = (\<lambda>phrases d.
         if ''show files'' \<in> set phrases \<and> map tok_text d = [''show'', ''files'']
         then [(''show files'', 0, 2)] else []),
      entity_matcher = (\<lambda>d. []),
      extract_one = (\<lambda>query choices cutoff. None),
      fuzz_ratio = indel_ratio,
      write_learning_data = (\<lambda>ld d. ld)\<rparr>"

definition demo_parser :: "(string, string) dict \<Rightarrow> learning_data EnhancedParser" where
  "demo_parser corrections =
     init_parser [] (empty_learning_data\<lparr>user_corrections := corrections\<rparr>) empty_learning_data"

section \<open>Properties of the pipeline executor\<close>

text \<open>
  C4. \<open>execute_pipeline\<close> on the empty stage list returns \<open>success = False\<close>, the
  error message \<open>Empty pipeline\<close> (with \<open>stderr\<close> \<open>No commands to execute\<close>) and
  \<open>stages_executed = 0\<close>; the world is untouched and no call is added to the trace,
  whatever the executor and the process runner are.
\<close>

theorem execute_pipeline_empty:
  "execute_pipeline env [] st =
     (\<lparr>success = False, error = Some ''Empty pipeline'', stdout = '''',
       stderr = ''No commands to execute'', returncode = None,
       stages_executed = Some 0, failed_stage = None\<rparr>, st)"
  by (simp add: execute_pipeline_def)

subsection \<open>One command, one stage\<close>

lemma single_handled:
  "python_handled (fst (executor env cmd (world st))) \<Longrightarrow>
   execute_single_command env cmd st =
     (\<lparr>success = True, error = None, stdout = ''Command executed successfully'',
       stderr = '''', returncode = Some 0, stages_executed = Some 1, failed_stage = None\<rparr>,
      st\<lparr>world := snd (executor env cmd (world st)), trace := trace st @ [CallExecutor cmd]\<rparr>)"
  by (cases "executor env cmd (world st)"; cases "fst (executor env cmd (world st))")
     (auto simp: execute_single_command_def Let_def)

lemma execute_single_trace:
  "trace (snd (execute_single_command env cmd st)) = trace st @ [CallExecutor cmd]"
  by (auto simp: execute_single_command_def Let_def split: prod.splits executor_return.splits)

lemma execute_single_traceD:
  "execute_single_command env cmd st = (r, st') \<Longrightarrow> trace st' = trace st @ [CallExecutor cmd]"
  using execute_single_trace[of env cmd st] by simp

lemma run_stage_flag: "run_stage env b stage ls = run_stage env b' stage ls"
  by (simp add: run_stage_def map_to_native_command_def)

lemma run_stage_returncode:
  "run_stage env b stage ls = (r, ls') \<Longrightarrow> success r = (returncode r = Some 0)"
  by (auto simp: run_stage_def execute_native_command_def execute_single_command_def Let_def
      split: option.splits prod.splits sum.splits executor_return.splits if_splits)

lemma run_stage_has_returncode:
  "run_stage env b stage ls = (r, ls') \<Longrightarrow> returncode r \<noteq> None"
  by (auto simp: run_stage_def execute_native_command_def execute_single_command_def Let_def
      split: option.splits prod.splits sum.splits executor_return.splits if_splits)

lemma run_stage_after:
  "run_stage env b stage ls = (r, ls') \<Longrightarrow>
     current_input ls' = Some (stdout r) \<and> executed ls' = Suc (executed ls)"
  by (auto simp: run_stage_def Let_def split: option.splits prod.splits)

lemma run_stage_trace:
  "\<exists>evs. trace (sys (snd (run_stage env b stage ls))) = trace (sys ls) @ MapNative stage # evs
        \<and> (\<forall>s. MapNative s \<notin> set evs)"
proof (cases "map_to_native_command stage (current_input ls) b")
  case None
  then show ?thesis
    by (cases "current_input ls")
       (auto simp: run_stage_def Let_def split: prod.splits dest!: execute_single_traceD)
next
  case (Some argv)
  then show ?thesis
    by (auto simp: run_stage_def execute_native_command_def Let_def split: prod.splits sum.splits)
qed

text \<open>
  C9. When the executor returns \<open>None\<close> or a string that begins with
  \<open>PYTHON_HANDLED\<close>, \<open>_execute_single_command\<close> reports success with exit code 0,
  one stage executed, an empty \<open>stderr\<close> and the made-up \<open>stdout\<close>
  \<open>Command executed successfully\<close>. In a pipeline of several stages, a stage without
  a native command whose action the executor handles so succeeds, and the loop goes on
  with that text as \<open>current_input\<close>; the next stage then hands it to its process as
  input when it has a native command, and writes it to the temporary file when it has
  none.
\<close>

theorem python_handled_result_is_fabricated:
  "(python_handled (fst (executor env cmd (world st))) \<longrightarrow>
      fst (execute_single_command env cmd st) =
        \<lparr>success = True, error = None, stdout = ''Command executed successfully'',
         stderr = '''', returncode = Some 0, stages_executed = Some 1, failed_stage = None\<rparr>)
   \<and> ((\<forall>a w. python_handled (fst (executor env \<lparr>cmd_action = action stage, cmd_args = a\<rparr> w)))
        \<and> map_to_native_command stage (current_input ls) b = None \<longrightarrow>
        (\<exists>ls'. stages_loop env n i (stage # rest) ls = stages_loop env n (Suc i) rest ls'
             \<and> current_input ls' = Some ''Command executed successfully''
             \<and> executed ls' = Suc (executed ls)))
   \<and> (current_input ls = Some ''Command executed successfully''
        \<and> map_to_native_command stage (current_input ls) b = Some argv \<longrightarrow>
        trace (sys (snd (run_stage env b stage ls))) =
          trace (sys ls) @ [MapNative stage, SubprocessRun argv (Some ''Command executed successfully'')])
   \<and> (current_input ls = Some ''Command executed successfully''
        \<and> map_to_native_command stage (current_input ls) b = None \<longrightarrow>
        (\<exists>name cmd'. trace (sys (snd (run_stage env b stage ls))) =
          trace (sys ls) @ [MapNative stage, TempFile name ''Command executed successfully'',
                            CallExecutor cmd']))"
proof (intro conjI impI)
  assume "python_handled (fst (executor env cmd (world st)))"
  from single_handled[OF this] show "fst (execute_single_command env cmd st) =
        \<lparr>success = True, error = None, stdout = ''Command executed successfully'',
         stderr = '''', returncode = Some 0, stages_executed = Some 1, failed_stage = None\<rparr>"
    by simp
next
  assume h: "(\<forall>a w. python_handled (fst (executor env \<lparr>cmd_action = action stage, cmd_args = a\<rparr> w)))
        \<and> map_to_native_command stage (current_input ls) b = None"
  have nat: "map_to_native_command stage (current_input ls) (int i = int n - 1) = None"
    using h by (simp add: map_to_native_command_def)
  obtain r ls' where rs: "run_stage env (int i = int n - 1) stage ls = (r, ls')"
    by (cases "run_stage env (int i = int n - 1) stage ls")
  have r: "r = \<lparr>success = True, error = None, stdout = ''Command executed successfully'',
         stderr = '''', returncode = Some 0, stages_executed = Some 1, failed_stage = None\<rparr>"
    using rs nat h
    by (auto simp: run_stage_def Let_def single_handled split: option.splits prod.splits)
  from run_stage_after[OF rs] r rs
  show "\<exists>ls'. stages_loop env n i (stage # rest) ls = stages_loop env n (Suc i) rest ls'
             \<and> current_input ls' = Some ''Command executed successfully''
             \<and> executed ls' = Suc (executed ls)"
    by (intro exI[of _ ls']) simp
next
  assume "current_input ls = Some ''Command executed successfully''
        \<and> map_to_native_command stage (current_input ls) b = Some argv"
  then show "trace (sys (snd (run_stage env b stage ls))) =
          trace (sys ls) @ [MapNative stage, SubprocessRun argv (Some ''Command executed successfully'')]"
    by (auto simp: run_stage_def execute_native_command_def Let_def split: prod.splits sum.splits)
next
  assume "current_input ls = Some ''Command executed successfully''
        \<and> map_to_native_command stage (current_input ls) b = None"
  then show "\<exists>name cmd'. trace (sys (snd (run_stage env b stage ls))) =
          trace (sys ls) @ [MapNative stage, TempFile name ''Command executed successfully'',
                            CallExecutor cmd']"
    by (auto simp: run_stage_def Let_def split: prod.splits dest!: execute_single_traceD)
qed

lemma demo_internal_handled:
  "python_handled (fst (executor demo_env \<lparr>cmd_action = ''internal'', cmd_args = a\<rparr> w))"
  by (simp add: demo_env_def startswith_def)

theorem python_handled_result_is_fabricated_witness:
  "fst (execute_single_command demo_env \<lparr>cmd_action = ''internal'', cmd_args = []\<rparr> demo_sys) =
     \<lparr>success = True, error = None, stdout = ''Command executed successfully'',
      stderr = '''', returncode = Some 0, stages_executed = Some 1, failed_stage = None\<rparr>
   \<and> (\<exists>ls'. stages_loop demo_env 2 0 [demo_stage ''internal'', demo_stage ''count_lines'']
               (initial_loop_state demo_sys) =
             stages_loop demo_env 2 1 [demo_stage ''count_lines''] ls'
           \<and> current_input ls' = Some ''Command executed successfully'')
   \<and> trace (sys (snd (run_stage demo_env True (demo_stage ''count_lines'')
        \<lparr>current_input = Some ''Command executed successfully'', executed = 1,
         temp_files = [], sys = demo_sys\<rparr>))) =
        [MapNative (demo_stage ''count_lines''),
         SubprocessRun [''wc'', ''-l''] (Some ''Command executed successfully'')]"
proof -
  have n1: "map_to_native_command (demo_stage ''internal'')
              (current_input (initial_loop_state demo_sys)) False = None"
    by (simp add: map_to_native_command_def demo_stage_def)
  have n2: "map_to_native_command (demo_stage ''count_lines'')
              (Some ''Command executed successfully'') True = Some [''wc'', ''-l'']"
    by (simp add: map_to_native_command_def demo_stage_def)
  have a: "action (demo_stage ''internal'') = ''internal''" by (simp add: demo_stage_def)
  from python_handled_result_is_fabricated[where env = demo_env
      and cmd = "\<lparr>cmd_action = ''internal'', cmd_args = []\<rparr>" and st = demo_sys
      and stage = "demo_stage ''internal''" and ls = "initial_loop_state demo_sys"
      and b = False and n = 2 and i = 0 and rest = "[demo_stage ''count_lines'']"]
    demo_internal_handled n1 a
  have p1: "fst (execute_single_command demo_env \<lparr>cmd_action = ''internal'', cmd_args = []\<rparr> demo_sys) =
     \<lparr>success = True, error = None, stdout = ''Command executed successfully'',
      stderr = '''', returncode = Some 0, stages_executed = Some 1, failed_stage = None\<rparr>"
    and p2: "\<exists>ls'. stages_loop demo_env 2 0 [demo_stage ''internal'', demo_stage ''count_lines'']
               (initial_loop_state demo_sys) =
             stages_loop demo_env 2 1 [demo_stage ''count_lines''] ls'
           \<and> current_input ls' = Some ''Command executed successfully''"
    by (auto simp: demo_sys_def)
  from python_handled_result_is_fabricated[where env = demo_env
      and stage = "demo_stage ''count_lines''"
      and ls = "\<lparr>current_input = Some ''Command executed successfully'', executed = 1,
         temp_files = [], sys = demo_sys\<rparr>"
      and b = True and argv = "[''wc'', ''-l'']"] n2
  have p3: "trace (sys (snd (run_stage demo_env True (demo_stage ''count_lines'')
        \<lparr>current_input = Some ''Command executed successfully'', executed = 1,
         temp_files = [], sys = demo_sys\<rparr>))) =
        [MapNative (demo_stage ''count_lines''),
         SubprocessRun [''wc'', ''-l''] (Some ''Command executed successfully'')]"
    by (simp add: demo_sys_def)
  from p1 p2 p3 show ?thesis by blast
qed

subsection \<open>The loop over the stages\<close>

lemma stages_ok_flag: "stages_ok env n i xs ls = stages_ok env n' i' xs ls"
proof (induction xs arbitrary: i i' ls)
  case Nil show ?case by simp
next
  case (Cons x xs)
  have "run_stage env (int i = int n - 1) x ls = run_stage env (int i' = int n' - 1) x ls"
    by (rule run_stage_flag)
  then show ?case using Cons.IH[of "Suc i" _ "Suc i'"] by (simp add: Let_def split: prod.splits)
qed

lemma stages_loop_fail:
  "stages_ok env n i xs ls = Some ls1 \<Longrightarrow>
   run_stage env b stage ls1 = (r, ls2) \<Longrightarrow> \<not> success r \<Longrightarrow>
   stages_loop env n i (xs @ stage # ys) ls =
     (\<lparr>success = False, error = None, stdout = stdout r, stderr = stderr r,
       returncode = returncode r, stages_executed = Some (executed ls + length xs + 1),
       failed_stage = Some (i + length xs)\<rparr>, ls2)"
proof (induction xs arbitrary: i ls)
  case Nil
  have rs: "run_stage env (int i = int n - 1) stage ls1 = (r, ls2)"
    using Nil.prems(2) run_stage_flag by metis
  have "returncode r \<noteq> None" using rs by (rule run_stage_has_returncode)
  then show ?case using Nil rs run_stage_after[OF rs] by (auto split: option.splits)
next
  case (Cons x xs)
  obtain r1 la where rs: "run_stage env (int i = int n - 1) x ls = (r1, la)"
    by (cases "run_stage env (int i = int n - 1) x ls")
  with Cons.prems(1) have ok: "success r1" "stages_ok env n (Suc i) xs la = Some ls1"
    by (auto split: if_splits)
  from Cons.IH[OF ok(2) Cons.prems(2,3)] run_stage_after[OF rs] rs ok(1)
  show ?case by simp
qed

text \<open>
  C2. Let the stages before index \<open>i\<close> all succeed and the stage at index \<open>i\<close> fail
  (its result \<open>r\<close> has \<open>success = False\<close>, which for a stage means an exit code other
  than 0, an exception counting as exit code 1). Then the multi-stage executor returns
  \<open>success = False\<close> with the \<open>stdout\<close>, \<open>stderr\<close> and exit code of that stage,
  \<open>failed_stage = i\<close> and \<open>stages_executed = i + 1\<close> (the failed stage is counted);
  the world and the trace are those after stage \<open>i\<close>, with the temporary files
  unlinked; and the stages after \<open>i\<close> play no part: any other stages in their place
  give the same result and the same trace.
\<close>

theorem multi_stage_stops_at_first_failure:
  assumes i: "i < length pipeline"
    and ok: "stages_ok env (length pipeline) 0 (take i pipeline) (initial_loop_state st) = Some ls"
    and run: "run_stage env (int i = int (length pipeline) - 1) (pipeline ! i) ls = (r, ls')"
    and fail: "\<not> success r"
  shows "execute_multi_stage_pipeline env pipeline st =
           (\<lparr>success = False, error = None, stdout = stdout r, stderr = stderr r,
             returncode = returncode r, stages_executed = Some (Suc i),
             failed_stage = Some i\<rparr>,
            cleanup env (temp_files ls') (sys ls'))
         \<and> returncode r \<noteq> Some 0
         \<and> (\<forall>later. execute_multi_stage_pipeline env (take (Suc i) pipeline @ later) st =
                     execute_multi_stage_pipeline env pipeline st)"
proof -
  have split: "pipeline = take i pipeline @ (pipeline ! i) # drop (Suc i) pipeline"
    using i by (simp add: id_take_nth_drop)
  have len: "length (take i pipeline) = i" using i by simp
  have ex0: "executed (initial_loop_state st) = 0" by (simp add: initial_loop_state_def)
  have loop: "stages_loop env n 0 (take i pipeline @ (pipeline ! i) # ys) (initial_loop_state st) =
     (\<lparr>success = False, error = None, stdout = stdout r, stderr = stderr r,
       returncode = returncode r, stages_executed = Some (Suc i),
       failed_stage = Some i\<rparr>, ls')" for n ys
  proof -
    have "stages_ok env n 0 (take i pipeline) (initial_loop_state st) = Some ls"
      using ok stages_ok_flag by metis
    from stages_loop_fail[OF this run fail, of ys] show ?thesis using i by (simp add: ex0)
  qed
  have first: "execute_multi_stage_pipeline env (take i pipeline @ (pipeline ! i) # ys) st =
           (\<lparr>success = False, error = None, stdout = stdout r, stderr = stderr r,
             returncode = returncode r, stages_executed = Some (Suc i),
             failed_stage = Some i\<rparr>,
            cleanup env (temp_files ls') (sys ls'))" for ys
    unfolding execute_multi_stage_pipeline_def
    using loop[of "length (take i pipeline @ (pipeline ! i) # ys)" ys]
    by (simp add: initial_loop_state_def)
  have tk: "take (Suc i) pipeline = take i pipeline @ [pipeline ! i]"
    using i by (simp add: take_Suc_conv_app_nth)
  have rc: "returncode r \<noteq> Some 0" using run_stage_returncode[OF run] fail by simp
  show ?thesis
  proof (intro conjI allI)
    show "execute_multi_stage_pipeline env pipeline st =
           (\<lparr>success = False, error = None, stdout = stdout r, stderr = stderr r,
             returncode = returncode r, stages_executed = Some (Suc i),
             failed_stage = Some i\<rparr>,
            cleanup env (temp_files ls') (sys ls'))"
      using first[of "drop (Suc i) pipeline"] split by simp
    show "returncode r \<noteq> Some 0" by (rule rc)
    fix later
    show "execute_multi_stage_pipeline env (take (Suc i) pipeline @ later) st =
                     execute_multi_stage_pipeline env pipeline st"
      using first[of later] first[of "drop (Suc i) pipeline"] split tk by simp
  qed
qed

lemma demo_run0:
  "run_stage demo_env False (demo_stage ''list_files'') (initial_loop_state demo_sys) =
    (\<lparr>success = True, error = None, stdout = ''a.txt'', stderr = '''', returncode = Some 0,
      stages_executed = None, failed_stage = None\<rparr>,
     \<lparr>current_input = Some ''a.txt'', executed = 1, temp_files = [],
      sys = \<lparr>world = (), trace = [MapNative (demo_stage ''list_files''), SubprocessRun [''ls''] None]\<rparr>\<rparr>)"
  by (simp add: run_stage_def demo_env_def demo_stage_def initial_loop_state_def demo_sys_def
      map_to_native_command_def execute_native_command_def)

lemma demo_run1:
  "run_stage demo_env False (demo_stage ''boom'')
     \<lparr>current_input = Some ''a.txt'', executed = 1, temp_files = [],
      sys = \<lparr>world = (), trace = [MapNative (demo_stage ''list_files''), SubprocessRun [''ls''] None]\<rparr>\<rparr> =
    (\<lparr>success = False, error = None, stdout = '''', stderr = ''bad'', returncode = Some 2,
      stages_executed = Some 1, failed_stage = None\<rparr>,
     \<lparr>current_input = Some '''', executed = 2, temp_files = [''/tmp/tmp0''],
      sys = \<lparr>world = (), trace = [MapNative (demo_stage ''list_files''), SubprocessRun [''ls''] None,
         MapNative (demo_stage ''boom''), TempFile ''/tmp/tmp0'' ''a.txt'',
         CallExecutor \<lparr>cmd_action = ''boom'', cmd_args = []\<rparr>]\<rparr>\<rparr>)"
  by (simp add: run_stage_def demo_env_def demo_stage_def
      map_to_native_command_def execute_single_command_def)

theorem multi_stage_stops_at_first_failure_witness:
  "execute_multi_stage_pipeline demo_env demo_pipeline demo_sys =
     (\<lparr>success = False, error = None, stdout = '''', stderr = ''bad'',
       returncode = Some 2, stages_executed = Some 2, failed_stage = Some 1\<rparr>,
      \<lparr>world = (), trace = [MapNative (demo_stage ''list_files''), SubprocessRun [''ls''] None,
         MapNative (demo_stage ''boom''), TempFile ''/tmp/tmp0'' ''a.txt'',
         CallExecutor \<lparr>cmd_action = ''boom'', cmd_args = []\<rparr>, Unlink ''/tmp/tmp0'']\<rparr>)"
proof -
  have i: "(1::nat) < length demo_pipeline" by (simp add: demo_pipeline_def)
  have ok: "stages_ok demo_env (length demo_pipeline) 0 (take 1 demo_pipeline)
              (initial_loop_state demo_sys) =
            Some \<lparr>current_input = Some ''a.txt'', executed = 1, temp_files = [],
      sys = \<lparr>world = (), trace = [MapNative (demo_stage ''list_files''), SubprocessRun [''ls''] None]\<rparr>\<rparr>"
    using demo_run0 by (simp add: demo_pipeline_def)
  have run: "run_stage demo_env (int 1 = int (length demo_pipeline) - 1) (demo_pipeline ! 1)
     \<lparr>current_input = Some ''a.txt'', executed = 1, temp_files = [],
      sys = \<lparr>world = (), trace = [MapNative (demo_stage ''list_files''), SubprocessRun [''ls''] None]\<rparr>\<rparr> = 
    (\<lparr>success = False, error = None, stdout = '''', stderr = ''bad'', returncode = Some 2,
      stages_executed = Some 1, failed_stage = None\<rparr>,
     \<lparr>current_input = Some '''', executed = 2, temp_files = [''/tmp/tmp0''],
      sys = \<lparr>world = (), trace = [MapNative (demo_stage ''list_files''), SubprocessRun [''ls''] None,
         MapNative (demo_stage ''boom''), TempFile ''/tmp/tmp0'' ''a.txt'',
         CallExecutor \<lparr>cmd_action = ''boom'', cmd_args = []\<rparr>]\<rparr>\<rparr>)"
    using demo_run1 by (simp add: demo_pipeline_def)
  from multi_stage_stops_at_first_failure[OF i ok run]
  show ?thesis by (simp add: demo_env_def)
qed

subsection \<open>What reaches the native mapping\<close>

lemma stages_loop_trace:
  "\<exists>evs. trace (sys (snd (stages_loop env n i stages ls))) = trace (sys ls) @ evs
        \<and> (\<forall>s. MapNative s \<in> set evs \<longrightarrow> s \<in> set stages)"
proof (induction stages arbitrary: i ls)
  case Nil
  show ?case by simp
next
  case (Cons stage rest)
  obtain r ls' where rs: "run_stage env (int i = int n - 1) stage ls = (r, ls')"
    by (cases "run_stage env (int i = int n - 1) stage ls")
  from run_stage_trace[of env "int i = int n - 1" stage ls] rs
  obtain evs where evs: "trace (sys ls') = trace (sys ls) @ MapNative stage # evs"
    "\<forall>s. MapNative s \<notin> set evs" by auto
  show ?case
  proof (cases "success r")
    case False
    with rs evs show ?thesis by (intro exI[of _ "MapNative stage # evs"]) auto
  next
    case True
    from Cons.IH[of "Suc i" ls'] obtain evs' where
      evs': "trace (sys (snd (stages_loop env n (Suc i) rest ls'))) = trace (sys ls') @ evs'"
      "\<forall>s. MapNative s \<in> set evs' \<longrightarrow> s \<in> set rest" by auto
    with True rs evs show ?thesis
      by (intro exI[of _ "MapNative stage # evs @ evs'"]) auto
  qed
qed

lemma cleanup_trace: "trace (cleanup env fs st) = trace st @ map Unlink fs"
  by (induction fs arbitrary: st) auto

lemma execute_multi_trace:
  "\<exists>evs. trace (snd (execute_multi_stage_pipeline env pipeline st)) = trace st @ evs
        \<and> (\<forall>s. MapNative s \<in> set evs \<longrightarrow> s \<in> set pipeline)"
proof -
  let ?ls0 = "\<lparr>current_input = None, executed = 0, temp_files = [], sys = st\<rparr>"
  obtain r ls where run: "stages_loop env (length pipeline) 0 pipeline ?ls0 = (r, ls)"
    by (cases "stages_loop env (length pipeline) 0 pipeline ?ls0")
  from stages_loop_trace[of env "length pipeline" 0 pipeline ?ls0] run
  obtain evs where evs: "trace (sys ls) = trace st @ evs"
    "\<forall>s. MapNative s \<in> set evs \<longrightarrow> s \<in> set pipeline" by auto
  have "trace (snd (execute_multi_stage_pipeline env pipeline st)) =
          trace st @ (evs @ map Unlink (temp_files ls))"
    by (simp add: execute_multi_stage_pipeline_def run cleanup_trace evs(1))
  moreover have "\<forall>s. MapNative s \<in> set (evs @ map Unlink (temp_files ls)) \<longrightarrow> s \<in> set pipeline"
    using evs(2) by auto
  ultimately show ?thesis by blast
qed

lemma execute_pipeline_trace:
  "\<exists>evs. trace (snd (execute_pipeline env pipeline st)) = trace st @ evs
        \<and> (\<forall>s. MapNative s \<in> set evs \<longrightarrow> s \<in> set pipeline \<and> 2 \<le> length pipeline)"
proof -
  consider "pipeline = []" | "length pipeline = 1" | "2 \<le> length pipeline"
    by (cases pipeline) (auto simp: Suc_le_eq)
  then show ?thesis
  proof cases
    case 1
    then show ?thesis by (simp add: execute_pipeline_def)
  next
    case 2
    then have "pipeline \<noteq> []" by auto
    with 2 show ?thesis
      by (intro exI[of _ "[CallExecutor \<lparr>cmd_action = action (hd pipeline), cmd_args = args (hd pipeline)\<rparr>]"])
         (simp add: execute_pipeline_def execute_single_trace)
  next
    case 3
    then have "pipeline \<noteq> []" "length pipeline \<noteq> 1" by auto
    with 3 execute_multi_trace[of env pipeline st] show ?thesis
      by (simp add: execute_pipeline_def)
  qed
qed

lemma parse_stages_actions:
  "s \<in> set (fst (parse_stages parser texts p)) \<Longrightarrow> action s \<notin> set terminal_actions"
proof (induction texts arbitrary: p)
  case Nil
  then show ?case by simp
next
  case (Cons t ts)
  obtain cmd p' where c: "parser t p = (cmd, p')" by (cases "parser t p")
  obtain pl p'' where r: "parse_stages parser ts p' = (pl, p'')" by (cases "parse_stages parser ts p'")
  from Cons.IH[of p'] r have ih: "s \<in> set pl \<Longrightarrow> action s \<notin> set terminal_actions" by simp
  from Cons.prems c r ih show ?case
    by (auto simp: terminal_actions_def split: option.splits if_splits)
qed

lemma parse_pipeline_actions:
  "2 \<le> length (fst (parse_pipeline parser text p)) \<Longrightarrow>
   s \<in> set (fst (parse_pipeline parser text p)) \<Longrightarrow> action s \<notin> set terminal_actions"
  by (cases "detect_pipeline text")
     (auto simp: parse_pipeline_def Let_def split: prod.splits option.splits dest: parse_stages_actions)

text \<open>
  C5. Whatever the parser, the text, the executor and the world are: of the calls that
  \<open>execute_pipeline\<close> makes on the stages that \<open>parse_pipeline\<close> produced, none hands
  a stage with the action \<open>unrecognized\<close>, \<open>suggest\<close> or \<open>error\<close> to
  \<open>_map_to_native_command\<close>. (A text without a pipeline indicator is parsed without
  that filter, but gives one stage at most, and one stage is executed directly.)
\<close>

theorem terminal_actions_never_mapped:
  "\<exists>evs. trace (snd (execute_pipeline env (fst (parse_pipeline parser text p)) st)) = trace st @ evs
        \<and> (\<forall>stage. MapNative stage \<in> set evs \<longrightarrow>
              action stage \<notin> set [''unrecognized'', ''suggest'', ''error''])"
proof -
  from execute_pipeline_trace[of env "fst (parse_pipeline parser text p)" st]
  obtain evs where evs:
    "trace (snd (execute_pipeline env (fst (parse_pipeline parser text p)) st)) = trace st @ evs"
    "\<forall>s. MapNative s \<in> set evs \<longrightarrow>
       s \<in> set (fst (parse_pipeline parser text p)) \<and> 2 \<le> length (fst (parse_pipeline parser text p))"
    by blast
  have "\<forall>stage. MapNative stage \<in> set evs \<longrightarrow>
              action stage \<notin> set [''unrecognized'', ''suggest'', ''error'']"
    using evs(2) parse_pipeline_actions[of parser "text" p] unfolding terminal_actions_def by blast
  with evs(1) show ?thesis by blast
qed

lemma demo_split: "split_pipeline_stages ''ls and x then wc'' = [''ls'', ''x'', ''wc'']"
  by code_simp

lemma demo_detect: "detect_pipeline ''ls and x then wc''"
  by code_simp

lemma demo_parse:
  "fst (parse_pipeline demo_stage_parser ''ls and x then wc'' ()) =
     [\<lparr>action = ''list_files'', args = [], original_text = Some ''ls''\<rparr>,
      \<lparr>action = ''count_lines'', args = [], original_text = Some ''wc''\<rparr>]"
  by (simp add: parse_pipeline_def demo_detect demo_split demo_stage_parser_def)

lemma demo_execute:
  "trace (snd (execute_pipeline demo_env
       [\<lparr>action = ''list_files'', args = [], original_text = Some ''ls''\<rparr>,
        \<lparr>action = ''count_lines'', args = [], original_text = Some ''wc''\<rparr>] demo_sys)) =
     [MapNative \<lparr>action = ''list_files'', args = [], original_text = Some ''ls''\<rparr>,
      SubprocessRun [''ls''] None,
      MapNative \<lparr>action = ''count_lines'', args = [], original_text = Some ''wc''\<rparr>,
      SubprocessRun [''wc'', ''-l''] (Some ''a.txt'')]"
  by (simp add: execute_pipeline_def execute_multi_stage_pipeline_def run_stage_def
      map_to_native_command_def execute_native_command_def demo_env_def demo_sys_def)

theorem terminal_actions_never_mapped_witness:
  "MapNative \<lparr>action = ''count_lines'', args = [], original_text = Some ''wc''\<rparr>
     \<in> set (trace (snd (execute_pipeline demo_env
           (fst (parse_pipeline demo_stage_parser ''ls and x then wc'' ())) demo_sys)))
   \<and> action \<lparr>action = ''count_lines'', args = [], original_text = Some ''wc''\<rparr>
        \<notin> set [''unrecognized'', ''suggest'', ''error'']"
  using terminal_actions_never_mapped[of demo_env demo_stage_parser "''ls and x then wc''" "()" demo_sys]
  by (simp add: demo_parse demo_execute)

section \<open>Properties of the intent resolver\<close>

lemma strip_blank: "(\<forall>c \<in> set text. is_space c) \<Longrightarrow> strip text = []"
proof -
  assume "\<forall>c \<in> set text. is_space c"
  then have h: "dropWhile is_space text = []" by (simp add: dropWhile_eq_Nil_conv)
  show ?thesis unfolding strip_def h by simp
qed

lemma strip_nonblank: "\<exists>c \<in> set text. \<not> is_space c \<Longrightarrow> strip text \<noteq> []"
proof -
  assume "\<exists>c \<in> set text. \<not> is_space c"
  then have "dropWhile is_space text \<noteq> []" by (simp add: dropWhile_eq_Nil_conv)
  then have "\<not> is_space (hd (dropWhile is_space text))" by (rule hd_dropWhile)
  moreover have "hd (dropWhile is_space text) \<in> set (rev (dropWhile is_space text))"
    using \<open>dropWhile is_space text \<noteq> []\<close> by simp
  ultimately have "dropWhile is_space (rev (dropWhile is_space text)) \<noteq> []"
    unfolding dropWhile_eq_Nil_conv by blast
  then show ?thesis by (simp add: strip_def)
qed

text \<open>
  C10. On a text that is empty or has whitespace only, \<open>parse_input\<close> returns
  \<open>None\<close> (no command structure, and not the \<open>unrecognized\<close> dictionary), and the
  parser is as before: the history, the learning data and the file on the disk are
  unchanged, and no scorer was called.
\<close>

theorem parse_input_blank_returns_none:
  "(\<forall>c \<in> set text. is_space c) \<Longrightarrow> parse_input penv text self = (PNone, self)"
  by (simp add: parse_input_def strip_blank)

theorem parse_input_blank_returns_none_witness:
  "parse_input demo_penv [CHR '' '', CHR 0x09, CHR '' ''] (demo_parser []) = (PNone, demo_parser [])"
  using parse_input_blank_returns_none[of "[CHR '' '', CHR 0x09, CHR '' '']" demo_penv "demo_parser []"]
  by (simp add: is_space_def)

subsection \<open>The learned corrections\<close>

lemma check_corrections_find:
  "fst (check_corrections penv text cs) =
     map_option snd (find (\<lambda>c. fuzz_ratio penv (lower text) (lower (fst c)) > 90) cs)"
  by (induction penv "text" cs rule: check_corrections.induct) (simp_all add: Let_def split_beta)

lemma check_corrections_calls:
  "ExtractOne q ch c \<notin> set (snd (check_corrections penv text cs))"
  by (induction penv "text" cs rule: check_corrections.induct) (simp_all add: Let_def split_beta)

lemma check_learning_data_find:
  "fst (check_learning_data penv text self) =
     map_option snd (find (\<lambda>c. fuzz_ratio penv (lower text) (lower (fst c)) > 90)
        (user_corrections (learning self)))"
  by (simp add: check_learning_data_def check_corrections_find)

lemma check_learning_data_calls:
  "ExtractOne q ch c \<notin> set (snd (check_learning_data penv text self))"
  by (simp add: check_learning_data_def check_corrections_calls)

lemma parse_input_truthy_action:
  assumes nb: "strip text \<noteq> []"
    and ri: "recognize_intent penv text (nlp penv text) self = (Inr (a0, s, sp), calls1)"
    and act: "truthy (if truthy (fst (check_learning_data penv text self))
                      then fst (check_learning_data penv text self) else a0)"
  shows "\<exists>cs self'. parse_input penv text self = (PCommand cs, self')
           \<and> cs_action cs = the (if truthy (fst (check_learning_data penv text self))
                      then fst (check_learning_data penv text self) else a0)
           \<and> scorer_calls self' = scorer_calls self @ calls1 @ snd (check_learning_data penv text self)"
proof -
  obtain l calls2 where cl: "check_learning_data penv text self = (l, calls2)"
    by (cases "check_learning_data penv text self")
  obtain raw res fa where ea: "extract_arguments penv (nlp penv text)
      (the (if truthy l then l else a0)) (last_entities (history self)) = (raw, res, fa)"
    by (cases "extract_arguments penv (nlp penv text)
      (the (if truthy l then l else a0)) (last_entities (history self))")
  from act have t: "truthy (if truthy l then l else a0)" unfolding cl by (simp split: if_splits)
  show ?thesis using nb ri cl ea t
    by (simp add: parse_input_def Let_def save_learning_data_def)
qed

lemma lower_show_files: "lower ''show files'' = ''show files''"
  by (simp add: lower_def lower_char_def)

lemma lower_show_file: "lower ''show file'' = ''show file''"
  by (simp add: lower_def lower_char_def)

lemma demo_keywords: "action_keywords (demo_parser cs) = base_action_keywords"
  by (simp add: demo_parser_def init_parser_def dict_merge_def)

lemma demo_corrections: "user_corrections (learning (demo_parser cs)) = cs"
  by (simp add: demo_parser_def init_parser_def)

lemma demo_calls: "scorer_calls (demo_parser cs) = []"
  by (simp add: demo_parser_def init_parser_def)

lemma demo_phrases:
  "matcher_phrases base_action_keywords =
     [''list files'', ''show files'', ''show current directory'', ''change directory'']"
  by (simp add: matcher_phrases_def base_action_keywords_def)

lemma demo_match:
  "phrase_matcher demo_penv (matcher_phrases (action_keywords (demo_parser cs)))
     (nlp demo_penv ''show files'') = [(''show files'', 0, 2)]"
  by (simp add: demo_keywords demo_phrases demo_penv_def demo_doc_def)

lemma demo_span: "lower (span_text (nlp demo_penv ''show files'') 0 2) = ''show files''"
  by (simp add: demo_penv_def demo_doc_def span_text_def lower_def lower_char_def)

lemma demo_lookup:
  "dict_get (action_keywords (demo_parser cs)) ''show files'' = Some ''list_files''"
  by (simp add: demo_keywords base_action_keywords_def dict_get_def)

lemma demo_nonblank: "\<exists>c \<in> set ''show files''. \<not> is_space c"
  by (simp add: is_space_def)

lemma ratio_same: "indel_ratio ''show files'' ''show files'' = 100"
  by (simp add: indel_ratio_def)

lemma ratio_near: "indel_ratio ''show files'' ''show file'' = 1800 / 19"
  by (simp add: indel_ratio_def)

lemma demo_intent:
  "recognize_intent demo_penv ''show files'' (nlp demo_penv ''show files'') (demo_parser cs) =
     (Inr (Some ''list_files'', None, None), [])"
  using demo_match[of cs] demo_span demo_lookup[of cs]
  by (simp add: recognize_intent_def exact_match_of_def)

lemma demo_learned:
  "check_learning_data demo_penv ''show files''
     (demo_parser ((''show file'', ''display_file'') # cs)) =
     (Some ''display_file'', [Ratio ''show files'' ''show file''])"
  by (simp add: check_learning_data_def demo_corrections lower_show_files lower_show_file
      demo_penv_def ratio_near)

lemma demo_no_corrections:
  "check_learning_data demo_penv ''show files'' (demo_parser []) = (None, [])"
  by (simp add: check_learning_data_def demo_corrections)

text \<open>
  C3, as the code has it. Let the text be not blank, let the first recorded correction
  (in the order of the dictionary) whose source utterance has a similarity above 90 to
  the text carry a non-empty action, and let the exact and the fuzzy match end without
  a \<open>KeyError\<close>. Then \<open>parse_input\<close> returns a command structure with that
  correction's action, whatever the outcome of the exact and the fuzzy match was.
\<close>

theorem learned_correction_overrides:
  assumes "\<exists>c \<in> set text. \<not> is_space c"
    and "find (\<lambda>c. fuzz_ratio penv (lower text) (lower (fst c)) > 90)
           (user_corrections (learning self)) = Some (original_input, correct_action)"
    and "correct_action \<noteq> []"
    and "fst (recognize_intent penv text (nlp penv text) self) = Inr outcome"
  shows "\<exists>cs self'. parse_input penv text self = (PCommand cs, self')
           \<and> cs_action cs = correct_action"
proof -
  obtain a0 s sp where o: "outcome = (a0, s, sp)" by (cases outcome)
  obtain calls1 where ri: "recognize_intent penv text (nlp penv text) self = (Inr (a0, s, sp), calls1)"
    using assms(4) o by (cases "recognize_intent penv text (nlp penv text) self") auto
  have l: "fst (check_learning_data penv text self) = Some correct_action"
    using assms(2) by (simp add: check_learning_data_find)
  from parse_input_truthy_action[OF strip_nonblank[OF assms(1)] ri] l assms(3)
  show ?thesis by auto
qed

theorem learned_correction_overrides_witness:
  "\<exists>cs self'. parse_input demo_penv ''show files''
       (demo_parser [(''show file'', ''display_file''), (''show files'', ''list_files'')])
         = (PCommand cs, self')
      \<and> cs_action cs = ''display_file''"
proof -
  have f: "find (\<lambda>c. fuzz_ratio demo_penv (lower ''show files'') (lower (fst c)) > 90)
           (user_corrections (learning
             (demo_parser [(''show file'', ''display_file''), (''show files'', ''list_files'')])))
         = Some (''show file'', ''display_file'')"
    by (simp add: demo_corrections lower_show_files lower_show_file demo_penv_def ratio_near)
  have i: "fst (recognize_intent demo_penv ''show files'' (nlp demo_penv ''show files'')
      (demo_parser [(''show file'', ''display_file''), (''show files'', ''list_files'')]))
      = Inr (Some ''list_files'', None, None)"
    by (simp add: demo_intent)
  from learned_correction_overrides[OF demo_nonblank f _ i] show ?thesis by simp
qed

text \<open>
  C3 as stated fails where two corrections are similar to the text: the utterance
  \<open>show files\<close> was corrected to \<open>list_files\<close> (similarity 100 to itself), but the
  correction of \<open>show file\<close>, recorded before it, has similarity 94.7 and is the one
  returned.
\<close>

theorem first_correction_wins_counterexample:
  "(''show files'', ''list_files'')
      \<in> set (user_corrections (learning
             (demo_parser [(''show file'', ''display_file''), (''show files'', ''list_files'')])))
   \<and> fuzz_ratio demo_penv (lower ''show files'') (lower ''show files'') > 90
   \<and> (\<exists>cs self'. parse_input demo_penv ''show files''
         (demo_parser [(''show file'', ''display_file''), (''show files'', ''list_files'')])
           = (PCommand cs, self')
        \<and> cs_action cs = ''display_file'' \<and> cs_action cs \<noteq> ''list_files'')"
proof -
  have nb: "strip ''show files'' \<noteq> []" by (rule strip_nonblank[OF demo_nonblank])
  from parse_input_truthy_action[OF nb
      demo_intent[of "[(''show file'', ''display_file''), (''show files'', ''list_files'')]"]]
  have ex: "\<exists>cs self'. parse_input demo_penv ''show files''
         (demo_parser [(''show file'', ''display_file''), (''show files'', ''list_files'')])
           = (PCommand cs, self')
        \<and> cs_action cs = ''display_file'' \<and> cs_action cs \<noteq> ''list_files''"
    by (auto simp: demo_learned)
  have r: "fuzz_ratio demo_penv (lower ''show files'') (lower ''show files'') > 90"
    by (simp add: lower_show_files demo_penv_def ratio_same)
  show ?thesis using ex r by (simp add: demo_corrections)
qed

subsection \<open>The exact match\<close>

text \<open>
  C1, as the code has it. Let the text be not blank, and let the first match of the
  phrase matcher (which holds the phrases with a space only), in lower case, be a
  phrase of the vocabulary with a non-empty action \<open>a\<close>. Then \<open>parse_input\<close> returns a
  command structure and never calls \<open>extractOne\<close>: the only scorer calls are those of
  \<open>fuzz.ratio\<close> on the recorded corrections. The action is \<open>a\<close> when no correction
  applies, and the correction's action when one does.
\<close>

theorem exact_match_skips_vocabulary_scoring:
  assumes "\<exists>c \<in> set text. \<not> is_space c"
    and "phrase_matcher penv (matcher_phrases (action_keywords self)) (nlp penv text)
           = (match_id, start, end') # others"
    and "dict_get (action_keywords self) (lower (span_text (nlp penv text) start end')) = Some a"
    and "a \<noteq> []"
  shows "\<exists>cs self'. parse_input penv text self = (PCommand cs, self')
           \<and> scorer_calls self' = scorer_calls self @ snd (check_learning_data penv text self)
           \<and> (\<forall>q ch c. ExtractOne q ch c \<notin> set (snd (check_learning_data penv text self)))
           \<and> (\<not> truthy (fst (check_learning_data penv text self)) \<longrightarrow> cs_action cs = a)
           \<and> (truthy (fst (check_learning_data penv text self)) \<longrightarrow>
                  Some (cs_action cs) = fst (check_learning_data penv text self))"
proof -
  have em: "exact_match_of penv (nlp penv text) self = Some a"
    using assms(2,3) by (simp add: exact_match_of_def)
  have ri: "recognize_intent penv text (nlp penv text) self = (Inr (Some a, None, None), [])"
    using em assms(4) by (simp add: recognize_intent_def)
  have t: "truthy (if truthy (fst (check_learning_data penv text self))
                      then fst (check_learning_data penv text self) else Some a)"
    using assms(4) by simp
  from parse_input_truthy_action[OF strip_nonblank[OF assms(1)] ri t]
  obtain cs self' where r: "parse_input penv text self = (PCommand cs, self')"
    "cs_action cs = the (if truthy (fst (check_learning_data penv text self))
                      then fst (check_learning_data penv text self) else Some a)"
    "scorer_calls self' = scorer_calls self @ [] @ snd (check_learning_data penv text self)"
    by blast
  have "truthy (fst (check_learning_data penv text self)) \<Longrightarrow>
          Some (cs_action cs) = fst (check_learning_data penv text self)"
    using r(2) by (cases "fst (check_learning_data penv text self)") auto
  with r check_learning_data_calls[of _ _ _ penv "text" self] show ?thesis by auto
qed

theorem exact_match_skips_vocabulary_scoring_witness:
  "\<exists>cs self'. parse_input demo_penv ''show files'' (demo_parser []) = (PCommand cs, self')
      \<and> scorer_calls self' = [] \<and> cs_action cs = ''list_files''"
  using exact_match_skips_vocabulary_scoring[OF demo_nonblank demo_match[of "[]"],
      of "''list_files''"] demo_span demo_lookup[of "[]"]
  by (simp add: demo_no_corrections demo_calls)

text \<open>
  C1 as stated fails where a correction applies: \<open>show files\<close> is a phrase of the
  vocabulary for \<open>list_files\<close> and is matched exactly, but with a recorded correction
  of \<open>show file\<close> to \<open>display_file\<close> the command's action is \<open>display_file\<close>, and
  \<open>fuzz.ratio\<close> was called.
\<close>

theorem exact_match_overridden_counterexample:
  "phrase_matcher demo_penv
       (matcher_phrases (action_keywords (demo_parser [(''show file'', ''display_file'')])))
       (nlp demo_penv ''show files'') = [(''show files'', 0, 2)]
   \<and> dict_get (action_keywords (demo_parser [(''show file'', ''display_file'')])) ''show files''
        = Some ''list_files''
   \<and> (\<exists>cs self'. parse_input demo_penv ''show files''
            (demo_parser [(''show file'', ''display_file'')]) = (PCommand cs, self')
        \<and> cs_action cs = ''display_file'' \<and> cs_action cs \<noteq> ''list_files''
        \<and> scorer_calls self' = [Ratio ''show files'' ''show file''])"
proof -
  have nb: "strip ''show files'' \<noteq> []" by (rule strip_nonblank[OF demo_nonblank])
  from parse_input_truthy_action[OF nb demo_intent[of "[(''show file'', ''display_file'')]"]]
  show ?thesis
    by (auto simp: demo_match demo_lookup demo_learned demo_calls)
qed

section \<open>Properties of the pipeline detector\<close>

lemma of_char_lt_256: "(of_char c :: nat) < 256"
  by (cases c) simp

lemma lower_char_cases:
  "lower_char c = c \<or>
   (lower_char c = char_of ((of_char c :: nat) + 32) \<and>
    ((65 \<le> (of_char c :: nat) \<and> (of_char c :: nat) \<le> 90) \<or> (192 \<le> (of_char c :: nat) \<and> (of_char c :: nat) \<le> 214)
        \<or> (216 \<le> (of_char c :: nat) \<and> (of_char c :: nat) \<le> 222)))"
  unfolding lower_char_def Let_def by (simp only: split: if_splits) blast

lemma of_char_shift:
  "(n::nat) + 32 < 256 \<Longrightarrow> (of_char (char_of (n + 32)) :: nat) = n + 32"
  by (simp add: of_char_of)

lemma is_word_nat:
  "is_word c = (let n = (of_char c :: nat)
      in (48 \<le> n \<and> n \<le> 57) \<or> (65 \<le> n \<and> n \<le> 90) \<or> n = 95 \<or> (97 \<le> n \<and> n \<le> 122)
         \<or> n = 170 \<or> n = 178 \<or> n = 179 \<or> n = 181 \<or> n = 185 \<or> n = 186
         \<or> (188 \<le> n \<and> n \<le> 190) \<or> (192 \<le> n \<and> n \<le> 214)
         \<or> (216 \<le> n \<and> n \<le> 246) \<or> (248 \<le> n \<and> n \<le> 255))"
  by (simp add: is_word_def)

lemma is_word_lower_char: "is_word (lower_char c) = is_word c"
proof -
  define n where "n = (of_char c :: nat)"
  have wc: "is_word c = ((48 \<le> n \<and> n \<le> 57) \<or> (65 \<le> n \<and> n \<le> 90) \<or> n = 95 \<or> (97 \<le> n \<and> n \<le> 122)
         \<or> n = 170 \<or> n = 178 \<or> n = 179 \<or> n = 181 \<or> n = 185 \<or> n = 186
         \<or> (188 \<le> n \<and> n \<le> 190) \<or> (192 \<le> n \<and> n \<le> 214)
         \<or> (216 \<le> n \<and> n \<le> 246) \<or> (248 \<le> n \<and> n \<le> 255))"
    unfolding is_word_nat Let_def n_def ..
  from lower_char_cases[of c] show ?thesis
  proof
    assume "lower_char c = c" then show ?thesis by simp
  next
    assume a: "lower_char c = char_of ((of_char c :: nat) + 32) \<and>
    ((65 \<le> (of_char c :: nat) \<and> (of_char c :: nat) \<le> 90) \<or> (192 \<le> (of_char c :: nat) \<and> (of_char c :: nat) \<le> 214)
        \<or> (216 \<le> (of_char c :: nat) \<and> (of_char c :: nat) \<le> 222))"
    then have l: "lower_char c = char_of (n + 32)" by (simp add: n_def)
    from a consider "65 \<le> n \<and> n \<le> 90" | "192 \<le> n \<and> n \<le> 214" | "216 \<le> n \<and> n \<le> 222"
      unfolding n_def by blast
    then show ?thesis
    proof cases
      case 1
      then have "n + 32 < 256" by simp
      then have o: "(of_char (char_of (n + 32)) :: nat) = n + 32" by (rule of_char_shift)
      have w1: "is_word c" unfolding wc using 1 by blast
      have "97 \<le> n + 32 \<and> n + 32 \<le> 122" using 1 by simp
      then have w2: "is_word (char_of (n + 32))" unfolding is_word_nat Let_def o by blast
      show ?thesis using w1 w2 l by simp
    next
      case 2
      then have "n + 32 < 256" by simp
      then have o: "(of_char (char_of (n + 32)) :: nat) = n + 32" by (rule of_char_shift)
      have w1: "is_word c" unfolding wc using 2 by blast
      have "216 \<le> n + 32 \<and> n + 32 \<le> 246" using 2 by simp
      then have w2: "is_word (char_of (n + 32))" unfolding is_word_nat Let_def o by blast
      show ?thesis using w1 w2 l by simp
    next
      case 3
      then have "n + 32 < 256" by simp
      then have o: "(of_char (char_of (n + 32)) :: nat) = n + 32" by (rule of_char_shift)
      have w1: "is_word c" unfolding wc using 3 by simp
      have "248 \<le> n + 32 \<and> n + 32 \<le> 255" using 3 by simp
      then have w2: "is_word (char_of (n + 32))" unfolding is_word_nat Let_def o by blast
      show ?thesis using w1 w2 l by simp
    qed
  qed
qed

lemma lit_append:
  "map lower_char mid = map lower_char w \<Longrightarrow>
   lit w (p, mid @ post) = Some (if mid = [] then p else Some (last mid), post)"
proof (induction w arbitrary: mid p)
  case Nil
  then show ?case by simp
next
  case (Cons c cs)
  then obtain x xs where m: "mid = x # xs" by (cases mid) auto
  with Cons.prems have h: "lower_char x = lower_char c" "map lower_char xs = map lower_char cs" by auto
  from Cons.IH[OF h(2), of "Some x"] h(1) m show ?case by (cases xs) auto
qed

lemma search_from_here: "rmatch r cur \<noteq> [] \<Longrightarrow> search_from r cur"
  by (cases cur; cases "snd cur") auto

lemma cursor_after_last: "cursor_after p xs = (if xs = [] then p else Some (last xs))"
  by (induction xs arbitrary: p) auto

lemma search_from_skip:
  "search_from r (cursor_after p pre, rest) \<Longrightarrow> search_from r (p, pre @ rest)"
  by (induction pre arbitrary: p) auto

lemma whole_word_found:
  assumes w: "w \<noteq> []" "is_word (hd w)" "is_word (last w)"
    and c: "contains_word text w"
  shows "re_search (whole_word w) text"
proof -
  from c obtain pre mid post where t: "text = pre @ mid @ post" and lo: "lower mid = lower w"
    and b1: "pre = [] \<or> \<not> is_word (last pre)" and b2: "post = [] \<or> \<not> is_word (hd post)"
    by (auto simp: contains_word_def)
  from lo have lo': "map lower_char mid = map lower_char w" by (simp add: lower_def)
  with w(1) have mne: "mid \<noteq> []" by auto
  have "lower_char (hd mid) = lower_char (hd w)" using lo' mne w(1) by (cases mid; cases w) auto
  then have hw: "is_word (hd mid)" using w(2) is_word_lower_char by metis
  have "lower_char (last mid) = lower_char (last w)"
    using lo' mne w(1) by (metis last_map)
  then have lw: "is_word (last mid)" using w(3) is_word_lower_char by metis
  let ?p = "cursor_after None pre"
  have wb: "\<not> word_before (?p, mid @ post)"
    using b1 by (cases pre) (auto simp: cursor_after_last)
  have wa: "word_after (?p, mid @ post)" using hw mne by (cases mid) auto
  have l: "lit w (?p, mid @ post) = Some (Some (last mid), post)"
    using lit_append[OF lo', of ?p post] mne by simp
  have e: "at_boundary (Some (last mid), post)"
    using lw b2 by (cases post) (auto simp: at_boundary_def)
  have "rmatch (whole_word w) (?p, mid @ post) \<noteq> []"
    using wb wa l e by (simp add: whole_word_def at_boundary_def)
  then have "search_from (whole_word w) (?p, mid @ post)" by (rule search_from_here)
  then have "search_from (whole_word w) (None, pre @ mid @ post)" by (rule search_from_skip)
  then show ?thesis by (simp add: re_search_def t)
qed

lemma two_in_filter:
  assumes "x \<in> set xs" "y \<in> set xs" "x \<noteq> y" "P x" "P y"
  shows "2 \<le> length (filter P xs)"
proof -
  have "{x, y} \<subseteq> set (filter P xs)" using assms by auto
  then have "card {x, y} \<le> card (set (filter P xs))" by (intro card_mono) auto
  also have "\<dots> \<le> length (filter P xs)" by (rule card_length)
  finally show ?thesis using assms(3) by simp
qed

lemma complex_word_shape:
  "w \<in> set complex_action_words \<Longrightarrow> w \<noteq> [] \<and> is_word (hd w) \<and> is_word (last w)"
  by (auto simp: complex_action_words_def is_word_def)

text \<open>
  C7. A text that contains, as whole words and in any case, two different words of
  \<open>find\<close>, \<open>search\<close>, \<open>filter\<close>, \<open>count\<close>, \<open>sort\<close>, \<open>analyze\<close>, \<open>organize\<close>,
  \<open>categorize\<close>, \<open>group\<close>, \<open>aggregate\<close> is a pipeline for \<open>is_pipeline\<close>.
\<close>

theorem two_complex_action_words_make_a_pipeline:
  assumes "w1 \<in> set complex_action_words" and "w2 \<in> set complex_action_words"
    and "w1 \<noteq> w2"
    and "contains_word text w1" and "contains_word text w2"
  shows "is_pipeline text"
proof -
  have m1: "re_search (whole_word w1) text"
    using whole_word_found complex_word_shape[OF assms(1)] assms(4) by blast
  have m2: "re_search (whole_word w2) text"
    using whole_word_found complex_word_shape[OF assms(2)] assms(5) by blast
  have "2 \<le> action_count text"
    unfolding action_count_def
    by (rule two_in_filter[OF assms(1) assms(2) assms(3) m1 m2])
  then show ?thesis by (simp add: is_pipeline_def)
qed

theorem two_complex_action_words_make_a_pipeline_witness:
  "contains_word ''Search logs, COUNT errors'' ''search''
   \<and> contains_word ''Search logs, COUNT errors'' ''count''
   \<and> is_pipeline ''Search logs, COUNT errors''"
proof -
  have l1: "lower ''Search'' = lower ''search''" by code_simp
  have l2: "lower ''COUNT'' = lower ''count''" by code_simp
  have n1: "\<not> is_word (hd '' logs, COUNT errors'')" by code_simp
  have n2: "\<not> is_word (last ''Search logs, '')" by code_simp
  have n3: "\<not> is_word (hd '' errors'')" by code_simp
  have c1: "contains_word ''Search logs, COUNT errors'' ''search''"
    unfolding contains_word_def
    using l1 n1
    by (intro exI[of _ "[]"] exI[of _ "''Search''"] exI[of _ "'' logs, COUNT errors''"]) simp
  have c2: "contains_word ''Search logs, COUNT errors'' ''count''"
    unfolding contains_word_def
    using l2 n2 n3
    by (intro exI[of _ "''Search logs, ''"] exI[of _ "''COUNT''"] exI[of _ "'' errors''"]) simp
  have "is_pipeline ''Search logs, COUNT errors''"
    by (rule two_complex_action_words_make_a_pipeline[OF _ _ _ c1 c2])
       (simp_all add: complex_action_words_def)
  with c1 c2 show ?thesis by simp
qed

subsection \<open>The parts between commas\<close>

lemma split_acc_comma_length:
  "length (split_acc '','' acc s) = Suc (count_list s CHR '','')"
  by (induction s arbitrary: acc) auto

lemma comma_parts_length: "length (comma_parts text) = Suc (count_list text CHR '','')"
  by (simp add: comma_parts_def split_def split_acc_comma_length)

lemma action_parts_filter: "action_parts (filter Q parts) \<le> action_parts parts"
proof -
  have "filter P (filter Q parts) = filter Q (filter P parts)" for P :: "string \<Rightarrow> bool"
    by (induction parts) auto
  then show ?thesis unfolding action_parts_def by (metis length_filter_le)
qed

text \<open>
  C6, as the code has it. The comma criterion counts all the parts between commas, the
  empty ones too (there is one part more than there are commas): a text of three parts
  or more, two of which match an action pattern, is a pipeline; so is, in particular,
  a text with three non-empty parts or more, two of which match. With fewer than three
  parts the criterion does not fire: \<open>is_pipeline\<close> is then decided by the explicit
  patterns and the count of complex action words alone.
\<close>

theorem comma_criterion_counts_all_parts:
  "(3 \<le> length (comma_parts text) \<and> 2 \<le> action_parts (comma_parts text) \<longrightarrow> is_pipeline text)
   \<and> (3 \<le> length (filter (\<lambda>part. part \<noteq> []) (comma_parts text))
        \<and> 2 \<le> action_parts (filter (\<lambda>part. part \<noteq> []) (comma_parts text))
        \<longrightarrow> is_pipeline text)
   \<and> (length (comma_parts text) < 3 \<longrightarrow>
        is_pipeline text =
          ((\<exists>pattern \<in> set pipeline_patterns. re_search pattern text) \<or> 2 \<le> action_count text))
   \<and> length (comma_parts text) = Suc (count_list text CHR '','')"
proof (intro conjI impI)
  assume "3 \<le> length (comma_parts text) \<and> 2 \<le> action_parts (comma_parts text)"
  then show "is_pipeline text" by (simp add: is_pipeline_def)
next
  assume a: "3 \<le> length (filter (\<lambda>part. part \<noteq> []) (comma_parts text))
        \<and> 2 \<le> action_parts (filter (\<lambda>part. part \<noteq> []) (comma_parts text))"
  have "length (filter (\<lambda>part. part \<noteq> []) (comma_parts text)) \<le> length (comma_parts text)"
    by (rule length_filter_le)
  with a have 1: "3 \<le> length (comma_parts text)" by linarith
  from a action_parts_filter[of "\<lambda>part. part \<noteq> []" "comma_parts text"]
  have 2: "2 \<le> action_parts (comma_parts text)" by linarith
  from 1 2 show "is_pipeline text" by (simp add: is_pipeline_def)
next
  assume "length (comma_parts text) < 3"
  then show "is_pipeline text =
          ((\<exists>pattern \<in> set pipeline_patterns. re_search pattern text) \<or> 2 \<le> action_count text)"
    by (auto simp: is_pipeline_def)
next
  show "length (comma_parts text) = Suc (count_list text CHR '','')" by (rule comma_parts_length)
qed

lemma demo_three_parts:
  "comma_parts ''list files, show text, done'' = [''list files'', ''show text'', ''done'']"
  by code_simp

lemma demo_three_action_parts:
  "action_parts [''list files'', ''show text'', ''done''] = 2"
  by code_simp

lemma demo_two_parts:
  "comma_parts ''list files, show text'' = [''list files'', ''show text'']"
  by code_simp

lemma demo_two_no_pattern:
  "\<not> (\<exists>pattern \<in> set pipeline_patterns. re_search pattern ''list files, show text'')"
  by code_simp

lemma demo_two_no_words: "action_count ''list files, show text'' = 0"
  by code_simp

theorem comma_criterion_counts_all_parts_witness:
  "3 \<le> length (comma_parts ''list files, show text, done'')
   \<and> 2 \<le> action_parts (comma_parts ''list files, show text, done'')
   \<and> is_pipeline ''list files, show text, done''
   \<and> length (comma_parts ''list files, show text'') < 3
   \<and> \<not> is_pipeline ''list files, show text''"
  using comma_criterion_counts_all_parts[of "''list files, show text, done''"]
    comma_criterion_counts_all_parts[of "''list files, show text''"]
  by (simp add: demo_three_parts demo_three_action_parts demo_two_parts demo_two_no_pattern
      demo_two_no_words)

lemma demo_empty_part:
  "comma_parts ''list files,,show text'' = [''list files'', '''', ''show text'']"
  by code_simp

lemma demo_empty_part_actions: "action_parts [''list files'', '''', ''show text''] = 2"
  by code_simp

lemma demo_empty_part_no_pattern:
  "\<not> (\<exists>pattern \<in> set pipeline_patterns. re_search pattern ''list files,,show text'')"
  by code_simp

lemma demo_empty_part_no_words: "action_count ''list files,,show text'' = 0"
  by code_simp

text \<open>
  C6 as stated fails on a text with an empty part: \<open>list files,,show text\<close> has two
  non-empty parts only, no explicit pattern and no complex action word, and yet it is
  a pipeline, by the comma criterion, since the empty part is counted.
\<close>

theorem empty_comma_part_counts_counterexample:
  "length (filter (\<lambda>part. part \<noteq> []) (comma_parts ''list files,,show text'')) = 2
   \<and> action_parts (filter (\<lambda>part. part \<noteq> []) (comma_parts ''list files,,show text'')) = 2
   \<and> \<not> (\<exists>pattern \<in> set pipeline_patterns. re_search pattern ''list files,,show text'')
   \<and> action_count ''list files,,show text'' = 0
   \<and> is_pipeline ''list files,,show text''"
proof -
  have f: "filter (\<lambda>part. part \<noteq> []) (comma_parts ''list files,,show text'') =
             [''list files'', ''show text'']"
    by (simp add: demo_empty_part)
  have a: "action_parts [''list files'', ''show text''] = 2" by code_simp
  have p: "is_pipeline ''list files,,show text''"
    by (simp add: is_pipeline_def demo_empty_part demo_empty_part_actions)
  show ?thesis using f a p demo_empty_part_no_pattern demo_empty_part_no_words by simp
qed

section \<open>Properties of the pipeline splitter\<close>

lemma split_acc_pieces:
  assumes "sep \<noteq> []"
    and "\<forall>k<length acc. take (length sep) (drop k acc @ rest) \<noteq> sep"
  shows "\<forall>q \<in> set (split_acc sep acc rest). \<not> occurs_in sep q"
  using assms
proof (induction sep acc rest rule: split_acc.induct)
  case (1 sep acc)
  have "\<not> occurs_in sep acc"
  proof
    assume "occurs_in sep acc"
    then obtain pre post where a: "acc = pre @ sep @ post" by (auto simp: occurs_in_def)
    with 1(1) have "length pre < length acc" by (cases sep) auto
    moreover have "take (length sep) (drop (length pre) acc @ []) = sep" using a by simp
    ultimately show False using 1(2) by blast
  qed
  then show ?case by simp
next
  case (2 sep acc c cs)
  have nacc: "\<not> occurs_in sep acc"
  proof
    assume "occurs_in sep acc"
    then obtain pre post where a: "acc = pre @ sep @ post" by (auto simp: occurs_in_def)
    with 2(3) have "length pre < length acc" by (cases sep) auto
    moreover have "take (length sep) (drop (length pre) acc @ c # cs) = sep" using a by simp
    ultimately show False using 2(4) by blast
  qed
  show ?case
  proof (cases "take (length sep) (c # cs) = sep")
    case True
    with 2(3) have c: "sep \<noteq> [] \<and> take (length sep) (c # cs) = sep" by simp
    have "\<forall>q\<in>set (split_acc sep [] (drop (length sep - 1) cs)). \<not> occurs_in sep q"
      by (rule 2(1)[OF c 2(3)]) simp
    with c nacc show ?thesis by simp
  next
    case False
    then have c: "\<not> (sep \<noteq> [] \<and> take (length sep) (c # cs) = sep)" by simp
    have inv: "\<forall>k<length (acc @ [c]). take (length sep) (drop k (acc @ [c]) @ cs) \<noteq> sep"
    proof (intro allI impI)
      fix k assume "k < length (acc @ [c])"
      then consider "k < length acc" | "k = length acc" by fastforce
      then show "take (length sep) (drop k (acc @ [c]) @ cs) \<noteq> sep"
      proof cases
        case 1
        then have "drop k (acc @ [c]) @ cs = drop k acc @ c # cs" by simp
        with 2(4) 1 show ?thesis by simp
      next
        case 2
        then show ?thesis using False by simp
      qed
    qed
    from 2(2)[OF c 2(3) inv] False show ?thesis by simp
  qed
qed

lemma split_pieces: "sep \<noteq> [] \<Longrightarrow> \<forall>q \<in> set (split s sep). \<not> occurs_in sep q"
  unfolding split_def by (rule split_acc_pieces) simp_all

lemma split_acc_none:
  "\<forall>k\<le>length rest. take (length sep) (drop k rest) \<noteq> sep \<Longrightarrow>
   split_acc sep acc rest = [acc @ rest]"
proof (induction rest arbitrary: acc)
  case Nil
  then show ?case by simp
next
  case (Cons c cs)
  from Cons.prems[rule_format, of 0] have h: "take (length sep) (c # cs) \<noteq> sep" by simp
  have "\<forall>k\<le>length cs. take (length sep) (drop k cs) \<noteq> sep"
  proof (intro allI impI)
    fix k assume "k \<le> length cs"
    then have "Suc k \<le> length (c # cs)" by simp
    from Cons.prems[rule_format, OF this] show "take (length sep) (drop k cs) \<noteq> sep" by simp
  qed
  from Cons.IH[OF this, of "acc @ [c]"] h show ?case by simp
qed

lemma split_none: "\<not> occurs_in sep s \<Longrightarrow> split s sep = [s]"
proof -
  assume n: "\<not> occurs_in sep s"
  have "\<forall>k\<le>length s. take (length sep) (drop k s) \<noteq> sep"
  proof (intro allI impI notI)
    fix k assume "k \<le> length s" and e: "take (length sep) (drop k s) = sep"
    have "s = take k s @ take (length sep) (drop k s) @ drop (length sep) (drop k s)"
      by (simp only: append_take_drop_id)
    with e have "s = take k s @ sep @ drop (length sep) (drop k s)" by simp
    with n show False unfolding occurs_in_def by blast
  qed
  from split_acc_none[OF this, of "[]"] show ?thesis by (simp add: split_def)
qed

lemma strip_decompose: "\<exists>a b. q = a @ strip q @ b"
proof -
  have 1: "q = takeWhile is_space q @ dropWhile is_space q" by simp
  have 2: "xs = rev (dropWhile is_space (rev xs)) @ rev (takeWhile is_space (rev xs))" for xs
    by (metis rev_append rev_rev_ident takeWhile_dropWhile_id)
  from 2[of "dropWhile is_space q"] have
    "dropWhile is_space q = strip q @ rev (takeWhile is_space (rev (dropWhile is_space q)))"
    by (simp add: strip_def)
  with 1 show ?thesis by metis
qed

lemma occurs_in_strip: "occurs_in sub (strip q) \<Longrightarrow> occurs_in sub q"
proof -
  assume "occurs_in sub (strip q)"
  then obtain pre post where s: "strip q = pre @ sub @ post" by (auto simp: occurs_in_def)
  from strip_decompose[of q] obtain a b where "q = a @ strip q @ b" by blast
  with s have "q = (a @ pre) @ sub @ (post @ b)" by simp
  then show ?thesis unfolding occurs_in_def by blast
qed

lemma strip_ends:
  assumes "strip q \<noteq> []"
  shows "\<not> is_space (hd (strip q)) \<and> \<not> is_space (last (strip q))"
proof -
  let ?d = "dropWhile is_space q"
  let ?e = "dropWhile is_space (rev ?d)"
  from assms have e: "?e \<noteq> []" by (simp add: strip_def)
  have d: "?d \<noteq> []"
  proof
    assume a: "?d = []"
    have "?e = []" unfolding a by simp
    with e show False by blast
  qed
  have l: "last (strip q) = hd ?e" using e by (simp add: strip_def last_rev)
  have "\<not> is_space (hd ?e)" using e by (rule hd_dropWhile)
  with l have 1: "\<not> is_space (last (strip q))" by simp
  have "?d = strip q @ rev (takeWhile is_space (rev ?d))"
    by (metis rev_append rev_rev_ident strip_def takeWhile_dropWhile_id)
  with assms have "hd (strip q) = hd ?d" by (metis hd_append2)
  moreover have "\<not> is_space (hd ?d)" using d by (rule hd_dropWhile)
  ultimately show ?thesis using 1 by simp
qed

lemma special_token_nonempty: "special_token \<noteq> []"
  by (simp add: special_token_def)

lemma stages_shape:
  "\<forall>stage \<in> set (split_pipeline_stages text).
     stage \<noteq> [] \<and> \<not> is_space (hd stage) \<and> \<not> is_space (last stage)
     \<and> \<not> occurs_in special_token stage"
proof
  fix stage assume "stage \<in> set (split_pipeline_stages text)"
  then obtain q where q: "q \<in> set (split (foldl (\<lambda>t indicator. re_sub indicator special_token t)
        text pipeline_indicators) special_token)" and s: "stage = strip q" and ne: "stage \<noteq> []"
    by (auto simp: split_pipeline_stages_def Let_def)
  from split_pieces[OF special_token_nonempty] q have "\<not> occurs_in special_token q" by blast
  then have "\<not> occurs_in special_token stage" using occurs_in_strip s by blast
  with strip_ends[of q] s ne show "stage \<noteq> [] \<and> \<not> is_space (hd stage) \<and> \<not> is_space (last stage)
     \<and> \<not> occurs_in special_token stage" by simp
qed

lemma sub_from_no_match:
  "\<not> search_from r (p, rest) \<Longrightarrow> sub_from r repl (p, rest) = rest"
proof (induction rest arbitrary: p)
  case Nil
  then show ?case by (simp add: sub_from.simps[of r repl p "[]"])
next
  case (Cons x xs)
  then have "rmatch r (p, x # xs) = []" "\<not> search_from r (Some x, xs)" by auto
  with Cons.IH[of "Some x"] show ?case by (simp add: sub_from.simps[of r repl p "x # xs"])
qed

lemma re_sub_no_match: "\<not> re_search r text \<Longrightarrow> re_sub r repl text = text"
  by (simp add: re_search_def re_sub_def sub_from_no_match)

lemma search_from_Alt:
  "search_from (Alt r1 r2) cur = (search_from r1 cur \<or> search_from r2 cur)"
proof (cases cur)
  case (Pair p rest)
  have "search_from (Alt r1 r2) (p, rest) = (search_from r1 (p, rest) \<or> search_from r2 (p, rest))"
    by (induction rest arbitrary: p) auto
  with Pair show ?thesis by simp
qed

lemma re_search_Alt: "re_search (Alt r1 r2) text = (re_search r1 text \<or> re_search r2 text)"
  by (simp add: re_search_def search_from_Alt)

lemma detect_pipeline_indicators:
  "detect_pipeline text = (\<exists>indicator \<in> set pipeline_indicators. re_search indicator text)"
  by (simp add: detect_pipeline_def pipeline_pattern_def pipeline_indicators_def re_search_Alt)

lemma foldl_no_match:
  "\<forall>r \<in> set rs. \<not> re_search r text \<Longrightarrow> foldl (\<lambda>t r. re_sub r repl t) text rs = text"
  by (induction rs) (simp_all add: re_sub_no_match)

lemma no_marker_single_stage:
  assumes "\<not> detect_pipeline text" and "\<not> occurs_in special_token text"
  shows "split_pipeline_stages text = (if strip text = [] then [] else [strip text])"
proof -
  have "\<forall>r \<in> set pipeline_indicators. \<not> re_search r text"
    using assms(1) by (simp add: detect_pipeline_indicators)
  then have "foldl (\<lambda>t r. re_sub r special_token t) text pipeline_indicators = text"
    by (rule foldl_no_match)
  then show ?thesis using split_none[OF assms(2)]
    by (simp add: split_pipeline_stages_def)
qed

text \<open>
  C8. \<open>split_pipeline_stages\<close> on \<open>list files and count lines\<close> gives the two stage
  texts \<open>list files\<close> and \<open>count lines\<close>, in that order. On every text, each stage it
  gives is non-empty, begins and ends with a character that is not whitespace, and
  holds no separator token. A text with no connective marker (and no separator token
  of its own) is not split: it is returned whole, trimmed, as the one stage, and a
  blank text gives no stage.
\<close>

theorem split_pipeline_stages_splits_at_markers:
  "split_pipeline_stages ''list files and count lines'' = [''list files'', ''count lines'']
   \<and> (\<forall>stage \<in> set (split_pipeline_stages text).
         stage \<noteq> [] \<and> \<not> is_space (hd stage) \<and> \<not> is_space (last stage)
         \<and> \<not> occurs_in special_token stage)
   \<and> (\<not> detect_pipeline text \<and> \<not> occurs_in special_token text \<longrightarrow>
         split_pipeline_stages text = (if strip text = [] then [] else [strip text]))"
proof (intro conjI)
  show "split_pipeline_stages ''list files and count lines'' = [''list files'', ''count lines'']"
    by code_simp
  show "\<forall>stage \<in> set (split_pipeline_stages text).
         stage \<noteq> [] \<and> \<not> is_space (hd stage) \<and> \<not> is_space (last stage)
         \<and> \<not> occurs_in special_token stage"
    by (rule stages_shape)
  show "\<not> detect_pipeline text \<and> \<not> occurs_in special_token text \<longrightarrow>
         split_pipeline_stages text = (if strip text = [] then [] else [strip text])"
    using no_marker_single_stage by blast
qed

lemma occurs_in_token_hash: "occurs_in special_token s \<Longrightarrow> CHR ''#'' \<in> set s"
  by (auto simp: occurs_in_def special_token_def)

lemma demo_split_then:
  "split_pipeline_stages ''Show files, THEN sort'' = [''Show files,'', ''sort'']"
  by code_simp

lemma demo_no_marker: "\<not> detect_pipeline '' list files ''"
  by code_simp

lemma demo_strip: "strip '' list files '' = ''list files''"
  by code_simp

theorem split_pipeline_stages_splits_at_markers_witness:
  "split_pipeline_stages ''Show files, THEN sort'' = [''Show files,'', ''sort'']
   \<and> \<not> is_space (hd ''sort'') \<and> \<not> is_space (last ''sort'')
   \<and> \<not> occurs_in special_token ''sort''
   \<and> \<not> detect_pipeline '' list files ''
   \<and> \<not> occurs_in special_token '' list files ''
   \<and> split_pipeline_stages '' list files '' = [''list files'']"
proof -
  have n: "\<not> occurs_in special_token '' list files ''"
    using occurs_in_token_hash[of "'' list files ''"] by auto
  from split_pipeline_stages_splits_at_markers[of "''Show files, THEN sort''"]
  have "\<forall>stage \<in> set [''Show files,'', ''sort''].
         stage \<noteq> [] \<and> \<not> is_space (hd stage) \<and> \<not> is_space (last stage)
         \<and> \<not> occurs_in special_token stage"
    by (simp add: demo_split_then)
  then have a: "\<not> is_space (hd ''sort'') \<and> \<not> is_space (last ''sort'')
     \<and> \<not> occurs_in special_token ''sort''" by simp
  from split_pipeline_stages_splits_at_markers[of "'' list files ''"] demo_no_marker n
  have b: "split_pipeline_stages '' list files '' = [''list files'']"
    by (simp add: demo_strip)
  from a b n demo_no_marker demo_split_then show ?thesis by blast
qed

end
